theory Spec2Isabelle
  imports Main
begin

section \<open>Strings\<close>

text \<open>
  Python's \<^verbatim>\<open>sep.join(xs)\<close> on a list of strings: the elements in order, with
  \<open>sep\<close> between neighbours; the empty list gives the empty string.
\<close>

fun str_join :: "string \<Rightarrow> string list \<Rightarrow> string" where
  "str_join sep [] = []"
| "str_join sep [x] = x"
| "str_join sep (x # y # ys) = x @ sep @ str_join sep (y # ys)"

text \<open>
  Python's \<^verbatim>\<open>s.split(sep)\<close> for a one-character separator: the pieces between
  the occurrences of \<open>sep\<close>; a string without \<open>sep\<close> (also the empty one) gives one
  piece. The repository never calls it; it is the operation the chunk order
  property of the specification splits with.
\<close>

fun str_split :: "char \<Rightarrow> string \<Rightarrow> string list" where
  "str_split sep [] = [[]]"
| "str_split sep (c # cs) =
     (if c = sep then [] # str_split sep cs
      else (case str_split sep cs of
              [] \<Rightarrow> [[c]]
            | w # ws \<Rightarrow> (c # w) # ws))"

section \<open>The chunker (helpers.py)\<close>

text \<open>
  The loop of \<^verbatim>\<open>split_text_into_sentence_groups\<close> (helpers.py, lines 23 to 28) over
  the sentence texts, with the two lists it mutates as arguments:
  \<^verbatim>\<open>
    for sent in doc.sents:
        current_group.append(sent.text)
        if len(current_group) == 20:
            current_group = " ".join(current_group)
            sentence_groups.append(current_group)
            current_group = []
  \<close>
  The literal 20 is the argument \<open>limit\<close>; \<open>split_text_into_sentence_groups\<close> below
  passes 20.
\<close>

fun sentence_loop ::
  "nat \<Rightarrow> string list \<Rightarrow> string list \<Rightarrow> string list \<Rightarrow> string list \<times> string list" where
  "sentence_loop limit [] sentence_groups current_group = (sentence_groups, current_group)"
| "sentence_loop limit (sent # sents) sentence_groups current_group =
     (let current_group = current_group @ [sent] in
      if length current_group = limit
      then sentence_loop limit sents (sentence_groups @ [str_join '' '' current_group]) []
      else sentence_loop limit sents sentence_groups current_group)"

text \<open>
  The rest of the function (lines 20 to 22 and 30 to 34): both lists start empty, and a
  non-empty last group is joined and appended.
\<close>

definition group_sentences :: "nat \<Rightarrow> string list \<Rightarrow> string list" where
  "group_sentences limit sents =
     (case sentence_loop limit sents [] [] of
        (sentence_groups, current_group) \<Rightarrow>
          if current_group \<noteq> [] then sentence_groups @ [str_join '' '' current_group]
          else sentence_groups)"

text \<open>
  \<^verbatim>\<open>doc = nlp(text)\<close> is spaCy's sentence segmentation, a library outside the
  repository: \<open>nlp\<close> is a parameter that gives the texts of \<^verbatim>\<open>doc.sents\<close> in order.
\<close>

definition split_text_into_sentence_groups :: "(string \<Rightarrow> string list) \<Rightarrow> string \<Rightarrow> string list" where
  "split_text_into_sentence_groups nlp text = group_sentences 20 (nlp text)"

section \<open>Exceptions\<close>

text \<open>
  The exceptions the modelled code can raise. \<open>AttributeError\<close> is an attribute read on
  \<^verbatim>\<open>None\<close>; \<open>TypeError\<close> is \<^verbatim>\<open>await\<close> on a value that is not awaitable;
  \<open>HTTPStatusError\<close> and \<open>ReadTimeout\<close> are the two httpx exceptions that
  \<^verbatim>\<open>query_gpt_async\<close> catches; \<open>ConnectError\<close> stands for the httpx exceptions it does
  not catch, \<open>KeyError\<close> for a response body without the expected fields, and
  \<open>APIError\<close> for the exceptions of the OpenAI client.
\<close>

datatype error =
  AttributeError | TypeError | KeyError | HTTPStatusError | ReadTimeout | ConnectError | APIError

section \<open>The job store (models.py, schemas.py, crud.py)\<close>

text \<open>
  The two tables of models.py. A Job is a row of \<^verbatim>\<open>texts\<close>, a Sub-job a row of
  \<^verbatim>\<open>translations\<close>; \<^verbatim>\<open>status\<close> is a free string in both, and
  \<^verbatim>\<open>translated_content\<close> is the only nullable column.
\<close>

record OriginalText =
  t_id :: int
  t_text :: string
  t_status :: string

record Translation =
  tr_id :: int
  tr_text_id :: int
  tr_status :: string
  tr_language :: string
  tr_translated_content :: "string option"

text \<open>
  The request and input schemas of schemas.py that the modelled functions take.
\<close>

record TranslationRequestSchema =
  req_text :: string
  req_languages :: "string list"

record TranslationInSchema =
  in_text_id :: int
  in_language :: string
  in_status :: string

text \<open>
  The database: both tables in insertion order, and for each the next value of its
  \<^verbatim>\<open>autoincrement\<close> primary key. The database engine itself is outside the
  repository. It may give the rows of a query without \<^verbatim>\<open>ORDER BY\<close> in any order
  (PostgreSQL can give a row that was updated after the others); the model gives them
  in insertion order, and no theorem below about every input depends on that order.
\<close>

record database =
  db_texts :: "OriginalText list"
  db_translations :: "Translation list"
  db_texts_seq :: int
  db_translations_seq :: int

definition empty_database :: database where
  "empty_database = \<lparr>db_texts = [], db_translations = [], db_texts_seq = 1, db_translations_seq = 1\<rparr>"

text \<open>
  \<^verbatim>\<open>query.filter(p).first()\<close> followed by an assignment to the row found and a commit:
  the first row that satisfies \<open>p\<close> is changed, and nothing when there is none.
\<close>

fun update_first :: "('a \<Rightarrow> bool) \<Rightarrow> ('a \<Rightarrow> 'a) \<Rightarrow> 'a list \<Rightarrow> 'a list" where
  "update_first p f [] = []"
| "update_first p f (x # xs) = (if p x then f x # xs else x # update_first p f xs)"

text \<open>crud.py, \<^verbatim>\<open>create_text\<close>: the new row, with status \<^verbatim>\<open>"pending"\<close>, and the database.\<close>

definition create_text :: "database \<Rightarrow> string \<Rightarrow> OriginalText \<times> database" where
  "create_text db text =
     (let db_text = \<lparr>t_id = db_texts_seq db, t_text = text, t_status = ''pending''\<rparr>
      in (db_text, db\<lparr>db_texts := db_texts db @ [db_text], db_texts_seq := db_texts_seq db + 1\<rparr>))"

text \<open>crud.py, \<^verbatim>\<open>get_text\<close>: the row, or \<^verbatim>\<open>None\<close>.\<close>

definition get_text :: "database \<Rightarrow> int \<Rightarrow> OriginalText option" where
  "get_text db text_id = find (\<lambda>text. t_id text = text_id) (db_texts db)"

text \<open>
  crud.py, \<^verbatim>\<open>update_text_status\<close>: it returns \<^verbatim>\<open>None\<close> on both branches, so the
  model returns the database only.
\<close>

definition update_text_status :: "database \<Rightarrow> int \<Rightarrow> string \<Rightarrow> database" where
  "update_text_status db text_id new_status =
     db\<lparr>db_texts := update_first (\<lambda>db_text. t_id db_text = text_id)
                     (\<lambda>db_text. db_text\<lparr>t_status := new_status\<rparr>) (db_texts db)\<rparr>"

text \<open>
  crud.py, \<^verbatim>\<open>create_translation\<close>: the columns of the input schema;
  \<^verbatim>\<open>translated_content\<close> is left \<^verbatim>\<open>NULL\<close>.
\<close>

definition create_translation :: "database \<Rightarrow> TranslationInSchema \<Rightarrow> Translation \<times> database" where
  "create_translation db translation =
     (let db_translation =
            \<lparr>tr_id = db_translations_seq db, tr_text_id = in_text_id translation,
             tr_status = in_status translation, tr_language = in_language translation,
             tr_translated_content = None\<rparr>
      in (db_translation,
          db\<lparr>db_translations := db_translations db @ [db_translation],
             db_translations_seq := db_translations_seq db + 1\<rparr>))"

text \<open>crud.py, \<^verbatim>\<open>get_translation\<close> and \<^verbatim>\<open>get_translations_for_text\<close>.\<close>

definition get_translation :: "database \<Rightarrow> int \<Rightarrow> Translation option" where
  "get_translation db i = find (\<lambda>translation. tr_id translation = i) (db_translations db)"

definition get_translations_for_text :: "database \<Rightarrow> int \<Rightarrow> Translation list" where
  "get_translations_for_text db text_id =
     filter (\<lambda>t. tr_text_id t = text_id) (db_translations db)"

text \<open>
  crud.py, \<^verbatim>\<open>update_translation_fields\<close>. Its callers drop the schema object it
  returns, so the model returns the database only.
\<close>

definition update_translation_fields :: "database \<Rightarrow> int \<Rightarrow> string \<Rightarrow> string \<Rightarrow> database" where
  "update_translation_fields db i status translated_content =
     db\<lparr>db_translations := update_first (\<lambda>db_translation. tr_id db_translation = i)
                            (\<lambda>db_translation. db_translation
                                \<lparr>tr_status := status,
                                 tr_translated_content := Some translated_content\<rparr>)
                            (db_translations db)\<rparr>"

text \<open>
  crud.py, \<^verbatim>\<open>create_translation_task\<close>: one text, then one translation for each
  language of the request, in the order of the list.
\<close>

definition create_translation_task ::
  "database \<Rightarrow> TranslationRequestSchema \<Rightarrow> OriginalText \<times> database" where
  "create_translation_task db translation_request =
     (case create_text db (req_text translation_request) of
        (text, db1) \<Rightarrow>
          (text,
           fold (\<lambda>language db'.
                   snd (create_translation db'
                          \<lparr>in_text_id = t_id text, in_language = language,
                           in_status = ''pending''\<rparr>))
                (req_languages translation_request) db1))"

section \<open>Polling a job (main.py)\<close>

text \<open>
  The two answers of \<^verbatim>\<open>get_translate\<close>: the dictionary
  \<^verbatim>\<open>{"status": "in progress"}\<close>, or a \<^verbatim>\<open>TextTranslationsSchema\<close> (id, text,
  translations).
\<close>

datatype poll_response =
  InProgress
| TextTranslationsSchema int string "Translation list"

text \<open>
  main.py, \<^verbatim>\<open>get_translate\<close>. \<^verbatim>\<open>task = get_text(task_id)\<close> may be
  \<^verbatim>\<open>None\<close>, and \<^verbatim>\<open>task.status\<close> on the next line then raises
  \<^verbatim>\<open>AttributeError\<close>. The path parameter is compared with the integer key of the
  table, so the model takes it as an integer.
\<close>

definition get_translate :: "database \<Rightarrow> int \<Rightarrow> error + poll_response" where
  "get_translate db task_id =
     (case get_text db task_id of
        None \<Rightarrow> Inl AttributeError
      | Some task \<Rightarrow>
          if t_status task = ''pending'' then Inr InProgress
          else Inr (TextTranslationsSchema (t_id task) (t_text task)
                      (get_translations_for_text db task_id)))"

section \<open>The translation client (translation_gateway.py)\<close>

text \<open>
  \<^verbatim>\<open>query_gpt\<close> sends one chat completion request through the OpenAI client and
  returns the content of the first choice. The client and the service behind it are
  outside the repository: \<open>openai\<close> is a parameter that gives, for the system message
  and the user message, the completion or the exception the call raises. Nothing makes
  two calls with the same messages give the same completion; a later run of the same
  code is modelled with another \<open>openai\<close>.
\<close>

definition query_gpt :: "(string \<Rightarrow> string \<Rightarrow> error + string) \<Rightarrow> string \<Rightarrow> string \<Rightarrow> error + string" where
  "query_gpt openai user_content language =
     (let system_content = ''Translate into '' @ language
      in openai system_content user_content)"

definition translate :: "(string \<Rightarrow> string \<Rightarrow> error + string) \<Rightarrow> string \<Rightarrow> string \<Rightarrow> error + string" where
  "translate openai text language = query_gpt openai text language"

section \<open>The retrying client (tasks_async.py, \<^verbatim>\<open>query_gpt_async\<close>)\<close>

text \<open>
  What a call of \<^verbatim>\<open>query_gpt_async\<close> does to the outside, in order:
  \<open>Request timeout retries\<close> is one \<^verbatim>\<open>client.post\<close> with that \<^verbatim>\<open>timeout\<close>, issued
  while the variable \<^verbatim>\<open>retries\<close> had that value; \<open>Sleep wait_time\<close> is one
  \<^verbatim>\<open>asyncio.sleep(wait_time)\<close>.
\<close>

datatype client_event = Request nat int | Sleep nat

text \<open>
  The \<^verbatim>\<open>while retries > 0\<close> loop (lines 51 to 84). \<open>post n\<close> is what the body of the
  \<^verbatim>\<open>try\<close> (lines 54 to 69) does at the request number \<open>n\<close> of this call: it returns
  the content of the first choice, or raises. \<^verbatim>\<open>HTTPStatusError\<close> and
  \<^verbatim>\<open>ReadTimeout\<close> are caught, any other exception leaves the function. The result
  is the exception raised, or the value returned: \<open>Some content\<close>, or \<open>None\<close> when the
  loop is left without a \<^verbatim>\<open>return\<close> (Python then returns \<^verbatim>\<open>None\<close>).
\<close>

function query_loop ::
  "(nat \<Rightarrow> error + string) \<Rightarrow> nat \<Rightarrow> int \<Rightarrow> nat \<Rightarrow> client_event list
     \<Rightarrow> (error + string option) \<times> client_event list" where
  "query_loop post wait_time retries n trace =
     (if retries > 0 then
        (case post n of
           Inr content \<Rightarrow> (Inr (Some content), trace @ [Request 48 retries])
         | Inl e \<Rightarrow>
             (case e of
                HTTPStatusError \<Rightarrow>
                  (if retries - 1 = 0 then (Inl e, trace @ [Request 48 retries])
                   else query_loop post wait_time (retries - 1) (Suc n)
                          (trace @ [Request 48 retries, Sleep wait_time]))
              | ReadTimeout \<Rightarrow>
                  (if retries - 1 = 0 then (Inr None, trace @ [Request 48 retries])
                   else query_loop post wait_time (retries - 1) (Suc n)
                          (trace @ [Request 48 retries, Sleep wait_time]))
              | _ \<Rightarrow> (Inl e, trace @ [Request 48 retries])))
      else (Inr None, trace))"
  by pat_completeness auto
termination
  by (relation "measure (\<lambda>(post, wait_time, retries, n, trace). nat retries)") auto

declare query_loop.simps [simp del]

text \<open>
  \<^verbatim>\<open>query_gpt_async\<close>: \<^verbatim>\<open>retries = 42\<close>, \<^verbatim>\<open>wait_time = 21\<close>, then the loop.
  \<open>post\<close> takes the two messages of the request first.
\<close>

definition query_gpt_async ::
  "(string \<Rightarrow> string \<Rightarrow> nat \<Rightarrow> error + string) \<Rightarrow> string \<Rightarrow> string
     \<Rightarrow> (error + string option) \<times> client_event list" where
  "query_gpt_async post user_content language =
     (let system_content = ''Translate into '' @ language;
          retries = 42;
          wait_time = 21
      in query_loop (post system_content user_content) wait_time retries 0 [])"

section \<open>Concurrent calls\<close>

text \<open>
  What a task does: it returns a value, raises an exception, or never finishes.
\<close>

datatype 'a outcome = Returns 'a | Raises error | Blocks

text \<open>
  Both workers start one call per chunk and wait for all of them. The calls run
  concurrently and finish in an order that the code does not control: \<open>order\<close> lists the
  positions of the calls in the order in which they finish. Each call has a future, a
  slot at its position that is empty until the call finishes and holds its result
  afterwards. A position that \<open>order\<close> does not list is a call that never finishes.
\<close>

definition futures :: "nat list \<Rightarrow> 'r list \<Rightarrow> 'r option list" where
  "futures order results =
     fold (\<lambda>i futs. if i < length futs then futs[i := Some (results ! i)] else futs)
          order (replicate (length results) None)"

text \<open>
  The results of calls that have all finished, read by position: the first exception
  by position, or all the values.
\<close>

fun collect_results :: "(error + 'a) list \<Rightarrow> error + 'a list" where
  "collect_results [] = Inr []"
| "collect_results (r # rs) =
     (case r of
        Inl e \<Rightarrow> Inl e
      | Inr y \<Rightarrow> (case collect_results rs of Inl e \<Rightarrow> Inl e | Inr ys \<Rightarrow> Inr (y # ys)))"

text \<open>
  tasks.py, lines 68 and 69:
  \<^verbatim>\<open>
    with concurrent.futures.ThreadPoolExecutor() as executor:
        translated_sentences = list(executor.map(translate_chunk, chunks))
  \<close>
  \<^verbatim>\<open>Executor.map\<close> submits one call per element and yields the results of the
  futures by position; \<^verbatim>\<open>list\<close> raises the first exception it meets, and leaving the
  \<^verbatim>\<open>with\<close> block waits for the calls.
\<close>

definition executor_map :: "nat list \<Rightarrow> ('a \<Rightarrow> error + 'b) \<Rightarrow> 'a list \<Rightarrow> 'b list outcome" where
  "executor_map order f xs =
     (case those (futures order (map f xs)) of
        None \<Rightarrow> Blocks
      | Some results \<Rightarrow>
          (case collect_results results of Inl e \<Rightarrow> Raises e | Inr ys \<Rightarrow> Returns ys))"

text \<open>
  tasks_async.py, \<^verbatim>\<open>await asyncio.gather(*tasks)\<close>: the first call that finishes with
  an exception makes \<^verbatim>\<open>gather\<close> raise it at once; when every call has returned,
  \<^verbatim>\<open>gather\<close> returns the values of the futures by position.
\<close>

fun gather_loop :: "nat list \<Rightarrow> (error + 'b) list \<Rightarrow> 'b option list \<Rightarrow> 'b list outcome" where
  "gather_loop [] results futs =
     (case those futs of None \<Rightarrow> Blocks | Some ys \<Rightarrow> Returns ys)"
| "gather_loop (i # order) results futs =
     (if i < length results then
        (case results ! i of
           Inl e \<Rightarrow> Raises e
         | Inr y \<Rightarrow> gather_loop order results (futs[i := Some y]))
      else gather_loop order results futs)"

definition gather :: "nat list \<Rightarrow> (error + 'b) list \<Rightarrow> 'b list outcome" where
  "gather order results = gather_loop order results (replicate (length results) None)"

section \<open>The Sub-job worker (tasks.py, tasks_async.py)\<close>

text \<open>
  tasks.py, \<^verbatim>\<open>process_individual_translation\<close>. \<^verbatim>\<open>get_translation\<close> and
  \<^verbatim>\<open>get_text\<close> may give \<^verbatim>\<open>None\<close>, and the attribute read that follows then
  raises. The function reads the database at its start and writes it once, at its end;
  what it reads (the language of its row and the text of the row's job) is written by
  no function of the repository after the row is created, and what it writes is its
  own row. So the model runs it in one step on the database of the moment of the
  write.
\<close>

definition process_individual_translation ::
  "(string \<Rightarrow> string list) \<Rightarrow> (string \<Rightarrow> string \<Rightarrow> error + string) \<Rightarrow> nat list
     \<Rightarrow> database \<Rightarrow> int \<Rightarrow> database outcome" where
  "process_individual_translation nlp openai order db translation_id =
     (case get_translation db translation_id of
        None \<Rightarrow> Raises AttributeError
      | Some translation \<Rightarrow>
          (case get_text db (tr_text_id translation) of
             None \<Rightarrow> Raises AttributeError
           | Some text \<Rightarrow>
               (let chunks = split_text_into_sentence_groups nlp (t_text text);
                    translate_chunk = (\<lambda>chunk. translate openai chunk (tr_language translation))
                in case executor_map order translate_chunk chunks of
                     Blocks \<Rightarrow> Blocks
                   | Raises e \<Rightarrow> Raises e
                   | Returns translated_sentences \<Rightarrow>
                       (let translated_text = str_join '' '' translated_sentences
                        in Returns (update_translation_fields db translation_id
                                      ''complete'' translated_text)))))"

text \<open>
  tasks_async.py, \<^verbatim>\<open>translate_chunk\<close>:
  \<^verbatim>\<open>return await translate(chunk, translation.language)\<close>. The name \<^verbatim>\<open>translate\<close>
  is the plain function of translation_gateway.py: the call runs it to its end, and
  its value is a \<^verbatim>\<open>str\<close>, which \<^verbatim>\<open>await\<close> refuses with \<^verbatim>\<open>TypeError\<close>.
\<close>

definition translate_chunk_async ::
  "(string \<Rightarrow> string \<Rightarrow> error + string) \<Rightarrow> string \<Rightarrow> string \<Rightarrow> error + string" where
  "translate_chunk_async openai language chunk =
     (case translate openai chunk language of
        Inl e \<Rightarrow> Inl e
      | Inr s \<Rightarrow> Inl TypeError)"

text \<open>tasks_async.py, \<^verbatim>\<open>process_individual_translation\<close>.\<close>

definition process_individual_translation_async ::
  "(string \<Rightarrow> string list) \<Rightarrow> (string \<Rightarrow> string \<Rightarrow> error + string) \<Rightarrow> nat list
     \<Rightarrow> database \<Rightarrow> int \<Rightarrow> database outcome" where
  "process_individual_translation_async nlp openai order db translation_id =
     (case get_translation db translation_id of
        None \<Rightarrow> Raises AttributeError
      | Some translation \<Rightarrow>
          (case get_text db (tr_text_id translation) of
             None \<Rightarrow> Raises AttributeError
           | Some text \<Rightarrow>
               (let chunks = split_text_into_sentence_groups nlp (t_text text);
                    tasks = map (translate_chunk_async openai (tr_language translation)) chunks
                in case gather order tasks of
                     Blocks \<Rightarrow> Blocks
                   | Raises e \<Rightarrow> Raises e
                   | Returns translated_sentences \<Rightarrow>
                       (let translated_text = str_join '' '' translated_sentences
                        in Returns (update_translation_fields db translation_id
                                      ''complete'' translated_text)))))"

section \<open>The orchestration (main.py, tasks.py, tasks_async.py)\<close>

text \<open>
  The tasks of the system run concurrently, in separate Celery workers (tasks.py) or as
  coroutines of one event loop (tasks_async.py). The model is a step function: the state
  holds the database and what the task queue knows, and each step is one task doing its
  reads and writes of the database. Which step comes next is not fixed by the code; a
  run is a list of actions.

  The orchestration of a job is \<open>Scheduled\<close> when \<^verbatim>\<open>process_translation\<close> has been
  queued for it and has not run, \<open>Waiting ids\<close> when it has started one worker for each
  of the translations \<open>ids\<close> and waits for them, \<open>Finalized\<close> when the status of the text
  has been written, and \<open>Aborted\<close> when the wait ended with an exception.
\<close>

datatype phase = Scheduled | Waiting "int list" | Finalized | Aborted

datatype worker_state = Running | Succeeded | Failed error

record system =
  store :: database
  orchestrations :: "int \<Rightarrow> phase option"
  workers :: "int \<Rightarrow> worker_state option"

definition initial_system :: system where
  "initial_system =
     \<lparr>store = empty_database, orchestrations = (\<lambda>text_id. None), workers = (\<lambda>translation_id. None)\<rparr>"

fun is_failed :: "worker_state option \<Rightarrow> bool" where
  "is_failed (Some (Failed e)) = True"
| "is_failed w = False"

text \<open>
  The actions of the tasks, one for each kind of step.
  \<^item> \<open>Submit text languages\<close>: main.py, \<^verbatim>\<open>translate\<close>.
  \<^item> \<open>Dispatch text_id\<close>: \<^verbatim>\<open>process_translation\<close> up to the start of the
    workers (tasks.py lines 37 to 40, tasks_async.py lines 35 to 37).
  \<^item> \<open>Work translation_id openai order\<close>: one run of the worker of tasks.py, with the
    answers of the translation service and the order in which its calls finish.
  \<^item> \<open>WorkAsync translation_id openai order\<close>: the same for the worker of
    tasks_async.py.
  \<^item> \<open>Finalize text_id\<close>: tasks.py, \<^verbatim>\<open>update_task_status\<close>, the body of the chord;
    tasks_async.py, line 38.
  \<^item> \<open>Abort text_id\<close>: the wait for the workers ends with an exception.
\<close>

datatype action =
  Submit string "string list"
| Dispatch int
| Work int "string \<Rightarrow> string \<Rightarrow> error + string" "nat list"
| WorkAsync int "string \<Rightarrow> string \<Rightarrow> error + string" "nat list"
| Finalize int
| Abort int

text \<open>
  main.py, \<^verbatim>\<open>translate\<close>: \<^verbatim>\<open>create_translation_task\<close>, then
  \<^verbatim>\<open>process_translation.delay(text.id)\<close> queues the orchestration of the new job.
\<close>

definition translate_endpoint :: "system \<Rightarrow> string list \<Rightarrow> string \<Rightarrow> int \<times> system" where
  "translate_endpoint sys languages text =
     (case create_translation_task (store sys) \<lparr>req_text = text, req_languages = languages\<rparr> of
        (task, db) \<Rightarrow>
          (t_id task,
           sys\<lparr>store := db, orchestrations := (orchestrations sys)(t_id task \<mapsto> Scheduled)\<rparr>))"

text \<open>
  \<^verbatim>\<open>process_translation\<close>, the fan-out. tasks.py builds one task signature for each
  row of \<^verbatim>\<open>get_translations_for_text\<close> and sends them as the header of a chord;
  tasks_async.py builds one coroutine for each row and passes them to
  \<^verbatim>\<open>asyncio.gather\<close>.
\<close>

definition process_translation :: "system \<Rightarrow> int \<Rightarrow> system" where
  "process_translation sys text_id =
     (let translations = get_translations_for_text (store sys) text_id;
          tasks = map tr_id translations
      in sys\<lparr>orchestrations := (orchestrations sys)(text_id \<mapsto> Waiting tasks),
             workers := (\<lambda>translation_id.
                           if translation_id \<in> set tasks then Some Running
                           else workers sys translation_id)\<rparr>)"

text \<open>
  tasks.py, \<^verbatim>\<open>update_task_status\<close>, and tasks_async.py, line 38:
  \<^verbatim>\<open>update_text_status(text_id, "completed")\<close>.
\<close>

definition update_task_status :: "system \<Rightarrow> int \<Rightarrow> system" where
  "update_task_status sys text_id =
     sys\<lparr>store := update_text_status (store sys) text_id ''completed'',
         orchestrations := (orchestrations sys)(text_id \<mapsto> Finalized)\<rparr>"

text \<open>
  One step: the action, taken in a state; \<open>None\<close> when it cannot be taken there.

  \<open>Finalize\<close> and \<open>Abort\<close> are the two ends of the wait for the workers. In
  tasks_async.py, \<^verbatim>\<open>await asyncio.gather(*tasks)\<close> on line 37 is called without
  \<^verbatim>\<open>return_exceptions\<close>: it returns when every worker has returned, and line 38
  runs; when a worker raises, \<^verbatim>\<open>gather\<close> raises that exception in
  \<^verbatim>\<open>process_translation\<close>, which has no handler, and line 38 is not reached. In
  tasks.py, Celery runs the body of a chord when every task of its header has
  succeeded; when a header task raises, the chord is marked as failed and the body is
  not run. The code has no step that runs a worker a second time.
\<close>

fun step :: "(string \<Rightarrow> string list) \<Rightarrow> action \<Rightarrow> system \<Rightarrow> system option" where
  "step nlp (Submit text languages) sys = Some (snd (translate_endpoint sys languages text))"
| "step nlp (Dispatch text_id) sys =
     (case orchestrations sys text_id of
        Some Scheduled \<Rightarrow> Some (process_translation sys text_id)
      | _ \<Rightarrow> None)"
| "step nlp (Work translation_id openai order) sys =
     (case workers sys translation_id of
        Some Running \<Rightarrow>
          (case process_individual_translation nlp openai order (store sys) translation_id of
             Returns db \<Rightarrow>
               Some (sys\<lparr>store := db, workers := (workers sys)(translation_id \<mapsto> Succeeded)\<rparr>)
           | Raises e \<Rightarrow> Some (sys\<lparr>workers := (workers sys)(translation_id \<mapsto> Failed e)\<rparr>)
           | Blocks \<Rightarrow> None)
      | _ \<Rightarrow> None)"
| "step nlp (WorkAsync translation_id openai order) sys =
     (case workers sys translation_id of
        Some Running \<Rightarrow>
          (case process_individual_translation_async nlp openai order (store sys) translation_id of
             Returns db \<Rightarrow>
               Some (sys\<lparr>store := db, workers := (workers sys)(translation_id \<mapsto> Succeeded)\<rparr>)
           | Raises e \<Rightarrow> Some (sys\<lparr>workers := (workers sys)(translation_id \<mapsto> Failed e)\<rparr>)
           | Blocks \<Rightarrow> None)
      | _ \<Rightarrow> None)"
| "step nlp (Finalize text_id) sys =
     (case orchestrations sys text_id of
        Some (Waiting tasks) \<Rightarrow>
          if list_all (\<lambda>translation_id. workers sys translation_id = Some Succeeded) tasks
          then Some (update_task_status sys text_id)
          else None
      | _ \<Rightarrow> None)"
| "step nlp (Abort text_id) sys =
     (case orchestrations sys text_id of
        Some (Waiting tasks) \<Rightarrow>
          if list_ex (\<lambda>translation_id. is_failed (workers sys translation_id)) tasks
          then Some (sys\<lparr>orchestrations := (orchestrations sys)(text_id \<mapsto> Aborted)\<rparr>)
          else None
      | _ \<Rightarrow> None)"

text \<open>A run: the actions in order, from a state; \<open>None\<close> when one of them cannot be taken.\<close>

fun run :: "(string \<Rightarrow> string list) \<Rightarrow> action list \<Rightarrow> system \<Rightarrow> system option" where
  "run nlp [] sys = Some sys"
| "run nlp (a # actions) sys =
     (case step nlp a sys of None \<Rightarrow> None | Some sys' \<Rightarrow> run nlp actions sys')"

section \<open>Auxiliary functions of the proofs\<close>

text \<open>
  The groups of \<open>n\<close> consecutive elements of a list, the last one shorter when \<open>n\<close>
  does not divide the length. It is used in the proofs only.
\<close>

function groups_of :: "nat \<Rightarrow> 'a list \<Rightarrow> 'a list list" where
  "groups_of n xs = (if n = 0 \<or> xs = [] then [] else take n xs # groups_of n (drop n xs))"
  by pat_completeness auto
termination
  by (relation "measure (\<lambda>(n, xs). length xs)") auto

declare groups_of.simps [simp del]

text \<open>
  The trace of \<open>k\<close> requests that start with the counter at \<open>r\<close>: every request
  but the last is followed by one sleep. It is used in the proofs only.
\<close>

definition request_trace :: "nat \<Rightarrow> int \<Rightarrow> nat \<Rightarrow> client_event list" where
  "request_trace w r k =
     concat (map (\<lambda>i. [Request 48 (r - int i), Sleep w]) [0..<k - 1]) @ [Request 48 (r - int (k - 1))]"

text \<open>
  What holds in every state that a run reaches from the initial state: the keys of both
  tables are below the next values of their sequences, and the keys of the
  translations are distinct; only rows that exist have a worker; a text is pending, or
  it is completed and its orchestration is finalized; the translations of a finalized
  job have workers that succeeded, those of a waiting job are among the workers it
  waits for, and the translation of a worker that succeeded is complete; a translation
  that has a worker belongs to a job that is not merely scheduled.
\<close>

definition orchestration_invariant :: "system \<Rightarrow> bool" where
  "orchestration_invariant sys \<longleftrightarrow>
     (\<forall>job\<in>set (db_texts (store sys)). t_id job < db_texts_seq (store sys))
     \<and> distinct (map tr_id (db_translations (store sys)))
     \<and> (\<forall>t\<in>set (db_translations (store sys)). tr_id t < db_translations_seq (store sys))
     \<and> (\<forall>i. workers sys i \<noteq> None \<longrightarrow> i < db_translations_seq (store sys))
     \<and> (\<forall>job\<in>set (db_texts (store sys)).
            t_status job = ''pending''
            \<or> t_status job = ''completed'' \<and> orchestrations sys (t_id job) = Some Finalized)
     \<and> (\<forall>t\<in>set (db_translations (store sys)).
            orchestrations sys (tr_text_id t) = Some Finalized
              \<longrightarrow> workers sys (tr_id t) = Some Succeeded)
     \<and> (\<forall>t\<in>set (db_translations (store sys)). \<forall>tasks.
            orchestrations sys (tr_text_id t) = Some (Waiting tasks) \<longrightarrow> tr_id t \<in> set tasks)
     \<and> (\<forall>t\<in>set (db_translations (store sys)).
            workers sys (tr_id t) = Some Succeeded \<longrightarrow> tr_status t = ''complete'')
     \<and> (\<forall>t\<in>set (db_translations (store sys)).
            workers sys (tr_id t) \<noteq> None \<longrightarrow> orchestrations sys (tr_text_id t) \<noteq> Some Scheduled)
     \<and> (\<forall>t\<in>set (db_translations (store sys)). tr_text_id t < db_texts_seq (store sys))"

section \<open>Example inputs\<close>

text \<open>
  A database with one job, whose text is \<^verbatim>\<open>a\<close>, and its one Sub-job, for the language
  \<^verbatim>\<open>es\<close>, both pending.
\<close>

definition example_db :: database where
  "example_db =
     \<lparr>db_texts = [\<lparr>t_id = 1, t_text = ''a'', t_status = ''pending''\<rparr>],
      db_translations =
        [\<lparr>tr_id = 1, tr_text_id = 1, tr_status = ''pending'', tr_language = ''es'',
          tr_translated_content = None\<rparr>],
      db_texts_seq = 2, db_translations_seq = 2\<rparr>"

section \<open>The chunker: what the loop computes\<close>

lemma groups_of_Nil: "groups_of n [] = []"
  by (simp add: groups_of.simps)

lemma groups_of_step:
  "0 < n \<Longrightarrow> xs \<noteq> [] \<Longrightarrow> groups_of n xs = take n xs # groups_of n (drop n xs)"
  by (subst groups_of.simps) simp

lemma sentence_loop_short:
  "length cur + length ss < limit \<Longrightarrow> sentence_loop limit ss gs cur = (gs, cur @ ss)"
  by (induction ss arbitrary: cur) (simp_all add: Let_def)

lemma sentence_loop_fill:
  "ys \<noteq> [] \<Longrightarrow> length cur + length ys = limit \<Longrightarrow>
   sentence_loop limit (ys @ rest) gs cur
     = sentence_loop limit rest (gs @ [str_join '' '' (cur @ ys)]) []"
proof (induction ys arbitrary: cur)
  case Nil
  then show ?case by simp
next
  case (Cons y ys)
  show ?case
  proof (cases "ys = []")
    case True
    with Cons.prems show ?thesis by (simp add: Let_def)
  next
    case False
    from Cons.prems have l: "length (cur @ [y]) + length ys = limit" by simp
    from False have "0 < length ys" by simp
    with l have "length (cur @ [y]) \<noteq> limit" by linarith
    with Cons.IH [OF False l] show ?thesis
      by (simp add: Let_def)
  qed
qed

lemma group_sentences_loop:
  "0 < limit \<Longrightarrow>
   (case sentence_loop limit ss gs [] of
      (sentence_groups, current_group) \<Rightarrow>
        if current_group \<noteq> [] then sentence_groups @ [str_join '' '' current_group]
        else sentence_groups)
     = gs @ map (str_join '' '') (groups_of limit ss)"
proof (induction "length ss" arbitrary: ss gs rule: less_induct)
  case less
  show ?case
  proof (cases "length ss < limit")
    case True
    have loop: "sentence_loop limit ss gs [] = (gs, ss)"
      using sentence_loop_short [of "[]" ss limit gs] True by simp
    show ?thesis
    proof (cases "ss = []")
      case True
      with loop show ?thesis by (simp add: groups_of_Nil)
    next
      case False
      with True less.prems have "groups_of limit ss = [ss]"
        by (simp add: groups_of_step groups_of_Nil)
      with loop False show ?thesis by simp
    qed
  next
    case False
    define ys where "ys = take limit ss"
    define rest where "rest = drop limit ss"
    have ss: "ss = ys @ rest" by (simp add: ys_def rest_def)
    have ly: "length ys = limit" using False by (simp add: ys_def)
    have ynil: "ys \<noteq> []" using ly less.prems by auto
    have lr: "length rest < length ss" using ly less.prems ss by simp
    have g: "groups_of limit ss = ys # groups_of limit rest"
    proof -
      from ynil have "ss \<noteq> []" by (auto simp: ys_def)
      then show ?thesis
        using groups_of_step [of limit ss] less.prems by (simp add: ys_def rest_def)
    qed
    have "sentence_loop limit ss gs [] = sentence_loop limit rest (gs @ [str_join '' '' ys]) []"
      using sentence_loop_fill [of ys "[]" limit rest gs] ynil ly ss by simp
    then show ?thesis
      using less.hyps [OF lr less.prems, of "gs @ [str_join '' '' ys]"] by (simp add: g)
  qed
qed

lemma group_sentences_groups_of:
  "0 < limit \<Longrightarrow> group_sentences limit ss = map (str_join '' '') (groups_of limit ss)"
  unfolding group_sentences_def using group_sentences_loop [of limit ss "[]"] by simp

lemma concat_groups_of: "0 < n \<Longrightarrow> concat (groups_of n xs) = xs"
  by (induction n xs rule: groups_of.induct) (subst groups_of.simps, simp)

lemma length_groups_of: "0 < n \<Longrightarrow> length (groups_of n xs) = (length xs + n - 1) div n"
proof (induction n xs rule: groups_of.induct)
  case (1 n xs)
  show ?case
  proof (cases "xs = []")
    case True
    with "1.prems" show ?thesis by (simp add: groups_of_Nil)
  next
    case False
    with "1.prems" have ih: "length (groups_of n (drop n xs)) = (length (drop n xs) + n - 1) div n"
      using "1.IH" by simp
    show ?thesis
    proof (cases "length xs \<le> n")
      case True
      with False "1.prems" have "(length xs + n - 1) div n = 1"
        by (cases xs) (simp_all add: div_eq_dividend_iff Suc_le_eq le_div_geq)
      with True False "1.prems" show ?thesis
        by (simp add: groups_of_step groups_of_Nil)
    next
      case gt: False
      then have "length xs + n - 1 = (length xs - n + n - 1) + n" by simp
      then have "(length xs + n - 1) div n = Suc ((length xs - n + n - 1) div n)"
        using "1.prems" by (metis div_add_self2 Suc_eq_plus1 less_numeral_extra(3))
      with ih False "1.prems" show ?thesis
        by (simp add: groups_of_step)
    qed
  qed
qed

lemma nth_groups_of:
  "0 < n \<Longrightarrow> i < length (groups_of n xs) \<Longrightarrow> groups_of n xs ! i = take n (drop (i * n) xs)"
proof (induction n xs arbitrary: i rule: groups_of.induct)
  case (1 n xs)
  from "1.prems" have nn: "xs \<noteq> []" by (auto simp: groups_of_Nil)
  with "1.prems" have st: "groups_of n xs = take n xs # groups_of n (drop n xs)"
    by (simp add: groups_of_step)
  show ?case
  proof (cases i)
    case 0
    with st show ?thesis by simp
  next
    case (Suc j)
    with "1.prems" st have "j < length (groups_of n (drop n xs))" by simp
    with "1.IH" [of j] "1.prems" nn
    have "groups_of n (drop n xs) ! j = take n (drop (j * n) (drop n xs))" by simp
    with st Suc show ?thesis by (simp add: add.commute)
  qed
qed

lemma full_group:
  assumes "Suc i < (n + 19) div 20"
  shows "i * 20 + 20 \<le> (n::nat)"
proof -
  from assms have "Suc (Suc i) \<le> (n + 19) div 20" by simp
  then have "Suc (Suc i) * 20 \<le> n + 19"
    by (simp only: less_eq_div_iff_mult_less_eq [of 20, simplified])
  then show ?thesis by simp
qed

lemma last_group:
  assumes "0 < (n::nat)"
  shows "((n + 19) div 20 - 1) * 20 < n"
proof -
  have "(n + 19) div 20 * 20 \<le> n + 19" by (rule div_times_less_eq_dividend)
  then show ?thesis using assms by (simp add: diff_mult_distrib)
qed

text \<open>
  C1 (chunk size invariant and degenerate cases). For every text, with \<open>nlp text\<close> its
  sentence units: chunk \<open>i\<close> is the join of the sentences at positions
  \<open>[20 i, 20 i + 20)\<close>; every chunk but the last joins exactly 20 sentences; the last
  chunk joins between 1 and 20; there are \<open>\<lceil>n / 20\<rceil>\<close> chunks, so every sentence is in
  one; no sentences give no chunks; and between 1 and 19 sentences give exactly one
  chunk, the join of them all. (The claim's "fewer than 20 sentences yields exactly one
  chunk" is read next to its "an empty sentence sequence yields an empty chunk
  sequence": it is about a non-empty sequence.)
\<close>

theorem chunk_size_invariant:
  "(\<forall>i < length (split_text_into_sentence_groups nlp text).
       split_text_into_sentence_groups nlp text ! i
         = str_join '' '' (take 20 (drop (i * 20) (nlp text))))
   \<and> (\<forall>i. Suc i < length (split_text_into_sentence_groups nlp text)
          \<longrightarrow> length (take 20 (drop (i * 20) (nlp text))) = 20)
   \<and> (split_text_into_sentence_groups nlp text \<noteq> []
          \<longrightarrow> 1 \<le> length (take 20 (drop ((length (split_text_into_sentence_groups nlp text) - 1) * 20) (nlp text)))
            \<and> length (take 20 (drop ((length (split_text_into_sentence_groups nlp text) - 1) * 20) (nlp text))) \<le> 20)
   \<and> length (split_text_into_sentence_groups nlp text) = (length (nlp text) + 19) div 20
   \<and> (nlp text = [] \<longrightarrow> split_text_into_sentence_groups nlp text = [])
   \<and> (nlp text \<noteq> [] \<and> length (nlp text) < 20
          \<longrightarrow> split_text_into_sentence_groups nlp text = [str_join '' '' (nlp text)])"
proof -
  define sents where "sents = nlp text"
  define chunks where "chunks = split_text_into_sentence_groups nlp text"
  have eq: "chunks = map (str_join '' '') (groups_of 20 sents)"
    by (simp add: chunks_def sents_def split_text_into_sentence_groups_def group_sentences_groups_of)
  have len: "length chunks = (length sents + 19) div 20"
    by (simp add: eq length_groups_of)
  have nth: "chunks ! i = str_join '' '' (take 20 (drop (i * 20) sents))" if "i < length chunks" for i
    using that by (simp add: eq nth_groups_of)
  have full: "length (take 20 (drop (i * 20) sents)) = 20" if "Suc i < length chunks" for i
    using full_group [of i "length sents"] that len by simp
  have lst: "1 \<le> length (take 20 (drop ((length chunks - 1) * 20) sents))
               \<and> length (take 20 (drop ((length chunks - 1) * 20) sents)) \<le> 20" if "chunks \<noteq> []"
  proof -
    from that eq have "sents \<noteq> []" by (auto simp: groups_of_Nil)
    then have "(length chunks - 1) * 20 < length sents"
      using last_group [of "length sents"] len by simp
    then show ?thesis by simp
  qed
  have emp: "chunks = []" if "sents = []"
    using that by (simp add: eq groups_of_Nil)
  have one: "chunks = [str_join '' '' sents]" if "sents \<noteq> []" "length sents < 20"
    using that by (simp add: eq groups_of_step groups_of_Nil)
  show ?thesis
    using len nth full lst emp one unfolding sents_def chunks_def by blast
qed

text \<open>
  The theorem at 45 sentences (chunks of 20, 20 and 5 sentences), at no sentence and at
  5 sentences.
\<close>

theorem chunk_size_invariant_witness:
  "length (split_text_into_sentence_groups (\<lambda>t. replicate 45 t) ''S.'') = 3
   \<and> split_text_into_sentence_groups (\<lambda>t. replicate 45 t) ''S.'' ! 2
       = str_join '' '' (replicate 5 ''S.'')
   \<and> length (take 20 (drop (1 * 20) (replicate 45 ''S.''))) = 20
   \<and> length (take 20 (drop ((3 - 1) * 20) (replicate 45 ''S.''))) = 5
   \<and> split_text_into_sentence_groups (\<lambda>t. []) ''S.'' = []
   \<and> split_text_into_sentence_groups (\<lambda>t. replicate 5 t) ''S.''
       = [str_join '' '' (replicate 5 ''S.'')]"
  using chunk_size_invariant [of "\<lambda>t. replicate 45 t" "''S.''"]
    chunk_size_invariant [of "\<lambda>t. []" "''S.''"]
    chunk_size_invariant [of "\<lambda>t. replicate 5 t" "''S.''"]
  by simp

lemma str_join_Cons: "ys \<noteq> [] \<Longrightarrow> str_join sep (x # ys) = x @ sep @ str_join sep ys"
  by (cases ys) simp_all

lemma str_join_append:
  "xs \<noteq> [] \<Longrightarrow> ys \<noteq> [] \<Longrightarrow> str_join sep (xs @ ys) = str_join sep xs @ sep @ str_join sep ys"
proof (induction xs)
  case Nil
  then show ?case by simp
next
  case (Cons x xs)
  then show ?case by (cases "xs = []") (simp_all add: str_join_Cons)
qed

lemma str_split_no_sep: "sep \<notin> set x \<Longrightarrow> str_split sep x = [x]"
  by (induction x) auto

lemma str_split_piece:
  "sep \<notin> set x \<Longrightarrow> str_split sep (x @ sep # rest) = x # str_split sep rest"
  by (induction x) auto

lemma str_split_join:
  "xs \<noteq> [] \<Longrightarrow> \<forall>x\<in>set xs. sep \<notin> set x \<Longrightarrow> str_split sep (str_join [sep] xs) = xs"
proof (induction xs)
  case Nil
  then show ?case by simp
next
  case (Cons x xs)
  then show ?case
    by (cases "xs = []") (simp_all add: str_join_Cons str_split_no_sep str_split_piece)
qed

lemma str_join_groups_of:
  "0 < n \<Longrightarrow> str_join sep (map (str_join sep) (groups_of n xs)) = str_join sep xs"
proof (induction n xs rule: groups_of.induct)
  case (1 n xs)
  show ?case
  proof (cases "xs = []")
    case True
    then show ?thesis by (simp add: groups_of_Nil)
  next
    case False
    with "1.prems" have st: "groups_of n xs = take n xs # groups_of n (drop n xs)"
      by (simp add: groups_of_step)
    from False "1.prems" "1.IH"
    have ih: "str_join sep (map (str_join sep) (groups_of n (drop n xs))) = str_join sep (drop n xs)"
      by simp
    show ?thesis
    proof (cases "drop n xs = []")
      case True
      with st show ?thesis by (simp add: groups_of_Nil)
    next
      case dn: False
      with "1.prems" have "groups_of n (drop n xs) \<noteq> []"
        by (simp add: groups_of_step)
      then have "str_join sep (map (str_join sep) (groups_of n xs))
                  = str_join sep (take n xs) @ sep @ str_join sep (drop n xs)"
        using st ih by (simp add: str_join_Cons)
      also have "\<dots> = str_join sep (take n xs @ drop n xs)"
      proof -
        from False "1.prems" have "take n xs \<noteq> []" by simp
        from str_join_append [OF this dn, of sep] show ?thesis by simp
      qed
      finally show ?thesis by simp
    qed
  qed
qed

text \<open>
  C2 as the claim states it fails: a sentence that contains a space is split at it, and
  for no sentence at all the split of the empty string is one empty piece.
\<close>

theorem chunk_order_split_counterexample:
  "str_split CHR '' '' (str_join '' ''
       (split_text_into_sentence_groups (\<lambda>t. [''Hello world.'', ''Bye.'']) ''Hello world. Bye.''))
     = [''Hello'', ''world.'', ''Bye.'']
   \<and> [''Hello'', ''world.'', ''Bye.''] \<noteq> [''Hello world.'', ''Bye.'']
   \<and> str_split CHR '' '' (str_join '' '' (split_text_into_sentence_groups (\<lambda>t. []) '''')) = [[]]
   \<and> [[]] \<noteq> ([] :: string list)"
  by (simp add: split_text_into_sentence_groups_def group_sentences_def)

text \<open>
  C2, amended (chunk order invariant). For every limit of at least 1, the chunks joined
  with a space are the sentences joined with a space, whatever the sentences are: the
  chunker keeps every sentence, in order. When there is at least one sentence and no
  sentence contains a space, splitting that string at the spaces gives the sentence
  sequence back; so it does for \<open>split_text_into_sentence_groups\<close>, whose limit is 20.
\<close>

theorem chunk_order_invariant:
  "0 < limit \<Longrightarrow>
   str_join '' '' (group_sentences limit sents) = str_join '' '' sents
   \<and> (sents \<noteq> [] \<and> (\<forall>s\<in>set sents. CHR '' '' \<notin> set s)
        \<longrightarrow> str_split CHR '' '' (str_join '' '' (group_sentences limit sents)) = sents)
   \<and> (nlp text \<noteq> [] \<and> (\<forall>s\<in>set (nlp text). CHR '' '' \<notin> set s)
        \<longrightarrow> str_split CHR '' '' (str_join '' '' (split_text_into_sentence_groups nlp text)) = nlp text)"
proof -
  assume limit: "0 < limit"
  have j: "str_join '' '' (group_sentences n ss) = str_join '' '' ss" if "0 < n" for n ss
    using that by (simp add: group_sentences_groups_of str_join_groups_of)
  have s: "str_split CHR '' '' (str_join '' '' (group_sentences n ss)) = ss"
    if "0 < n" "ss \<noteq> []" "\<forall>s\<in>set ss. CHR '' '' \<notin> set s" for n ss
    using that str_split_join [of ss "CHR '' ''"] by (simp add: j)
  from limit j s [of limit sents] s [of 20 "nlp text"] show ?thesis
    by (simp add: split_text_into_sentence_groups_def)
qed

theorem chunk_order_invariant_witness:
  "(0::nat) < 2 \<and> [''a.'', ''b.'', ''c.''] \<noteq> []
   \<and> CHR '' '' \<notin> set ''a.'' \<and> CHR '' '' \<notin> set ''b.'' \<and> CHR '' '' \<notin> set ''c.''
   \<and> group_sentences 2 [''a.'', ''b.'', ''c.''] = [''a. b.'', ''c.'']
   \<and> str_split CHR '' '' (str_join '' '' (group_sentences 2 [''a.'', ''b.'', ''c.'']))
       = [''a.'', ''b.'', ''c.'']
   \<and> str_split CHR '' '' (str_join '' ''
         (split_text_into_sentence_groups (\<lambda>t. [''a.'', ''b.'', ''c.'']) ''a. b. c.''))
       = [''a.'', ''b.'', ''c.'']"
  using chunk_order_invariant [of 2 "[''a.'', ''b.'', ''c.'']" "\<lambda>t. [''a.'', ''b.'', ''c.'']" "''a. b. c.''"]
  by (simp add: group_sentences_def)

section \<open>The worker: what a run that returns has done\<close>

lemma those_Some_map: "those xs = Some ys \<Longrightarrow> xs = map Some ys"
  by (induction xs arbitrary: ys) (auto split: option.splits)

lemma futures_slots:
  "length (futures order rs) = length rs
   \<and> (\<forall>i<length rs. futures order rs ! i = None \<or> futures order rs ! i = Some (rs ! i))"
proof -
  have "length (fold (\<lambda>i futs. if i < length futs then futs[i := Some (rs ! i)] else futs) order futs) = length rs
        \<and> (\<forall>i<length rs. fold (\<lambda>i futs. if i < length futs then futs[i := Some (rs ! i)] else futs) order futs ! i = None
              \<or> fold (\<lambda>i futs. if i < length futs then futs[i := Some (rs ! i)] else futs) order futs ! i = Some (rs ! i))"
    if "length futs = length rs" "\<forall>i<length rs. futs ! i = None \<or> futs ! i = Some (rs ! i)" for futs
    using that
  proof (induction order arbitrary: futs)
    case Nil
    then show ?case by simp
  next
    case (Cons j order)
    show ?case
    proof (cases "j < length futs")
      case True
      have "length (futs[j := Some (rs ! j)]) = length rs" using Cons.prems by simp
      moreover have "\<forall>i<length rs. futs[j := Some (rs ! j)] ! i = None \<or> futs[j := Some (rs ! j)] ! i = Some (rs ! i)"
      proof (intro allI impI)
        fix i assume "i < length rs"
        with Cons.prems show "futs[j := Some (rs ! j)] ! i = None \<or> futs[j := Some (rs ! j)] ! i = Some (rs ! i)"
          by (cases "i = j") auto
      qed
      ultimately show ?thesis using Cons.IH [of "futs[j := Some (rs ! j)]"] True by simp
    next
      case False
      then show ?thesis using Cons.IH [OF Cons.prems] by simp
    qed
  qed
  from this [of "replicate (length rs) None"] show ?thesis by (simp add: futures_def)
qed

lemma futures_results: "those (futures order rs) = Some results \<Longrightarrow> results = rs"
proof -
  assume "those (futures order rs) = Some results"
  then have m: "futures order rs = map Some results" by (rule those_Some_map)
  with futures_slots [of order rs] have l: "length results = length rs" by simp
  show ?thesis
  proof (rule nth_equalityI [OF l])
    fix i assume i: "i < length results"
    with m have "futures order rs ! i = Some (results ! i)" by simp
    with futures_slots [of order rs] i l show "results ! i = rs ! i" by auto
  qed
qed

lemma collect_results_map_Inr: "collect_results (map Inr ys) = Inr ys"
  by (induction ys) auto

lemma collect_results_Inr: "collect_results rs = Inr ys \<Longrightarrow> rs = map Inr ys"
  by (induction rs arbitrary: ys) (auto split: sum.splits)

lemma executor_map_Returns:
  "executor_map order f xs = Returns ys \<Longrightarrow> map f xs = map Inr ys"
proof -
  assume r: "executor_map order f xs = Returns ys"
  then obtain results where t: "those (futures order (map f xs)) = Some results"
    by (auto simp: executor_map_def split: option.splits)
  then have "results = map f xs" by (rule futures_results)
  with r t have "collect_results (map f xs) = Inr ys"
    by (auto simp: executor_map_def split: sum.splits)
  then show ?thesis by (rule collect_results_Inr)
qed

lemma gather_loop_Returns:
  "gather_loop order rs futs = Returns ys \<Longrightarrow> length futs = length rs \<Longrightarrow>
   \<forall>i<length rs. futs ! i = None \<or> rs ! i = Inr (the (futs ! i)) \<Longrightarrow>
   rs = map Inr ys"
proof (induction order rs futs rule: gather_loop.induct)
  case (1 rs futs)
  from "1.prems"(1) have m: "futs = map Some ys"
    by (auto split: option.splits dest: those_Some_map)
  with "1.prems"(2) have l: "length rs = length (map Inr ys)" by simp
  show ?case
  proof (rule nth_equalityI [OF l])
    fix i assume "i < length rs"
    with "1.prems"(3) m l show "rs ! i = map Inr ys ! i" by auto
  qed
next
  case (2 i order rs futs)
  show ?case
  proof (cases "i < length rs")
    case True
    with "2.prems"(1) obtain y where y: "rs ! i = Inr y"
      and g: "gather_loop order rs (futs[i := Some y]) = Returns ys"
      by (auto split: sum.splits)
    have "\<forall>j<length rs. futs[i := Some y] ! j = None \<or> rs ! j = Inr (the (futs[i := Some y] ! j))"
    proof (intro allI impI)
      fix j assume "j < length rs"
      with "2.prems"(2,3) y
      show "futs[i := Some y] ! j = None \<or> rs ! j = Inr (the (futs[i := Some y] ! j))"
        by (cases "j = i") auto
    qed
    with "2.IH"(1) [OF True y g] "2.prems"(2) show ?thesis by simp
  next
    case False
    with "2.prems" "2.IH"(2) show ?thesis by simp
  qed
qed

lemma gather_Returns: "gather order rs = Returns ys \<Longrightarrow> rs = map Inr ys"
  unfolding gather_def by (erule gather_loop_Returns) simp_all

lemma find_update_first:
  "find p xs = Some x \<Longrightarrow> p (f x) \<Longrightarrow> find p (update_first p f xs) = Some (f x)"
  by (induction xs) (auto split: if_splits)

lemma get_translation_id: "get_translation db i = Some t \<Longrightarrow> tr_id t = i"
  by (auto simp: get_translation_def find_Some_iff)

lemma get_translation_update:
  "get_translation db i = Some t \<Longrightarrow>
   get_translation (update_translation_fields db i status content) i
     = Some (t\<lparr>tr_status := status, tr_translated_content := Some content\<rparr>)"
proof -
  assume g: "get_translation db i = Some t"
  then have "tr_id t = i" by (rule get_translation_id)
  with g find_update_first [of "\<lambda>t. tr_id t = i" "db_translations db" t
      "\<lambda>t. t\<lparr>tr_status := status, tr_translated_content := Some content\<rparr>"]
  show ?thesis
    by (simp add: get_translation_def update_translation_fields_def)
qed

lemma worker_Returns:
  "process_individual_translation nlp openai order db translation_id = Returns db' \<Longrightarrow>
   \<exists>translation text translated_sentences.
     get_translation db translation_id = Some translation
     \<and> get_text db (tr_text_id translation) = Some text
     \<and> map (\<lambda>chunk. translate openai chunk (tr_language translation))
           (split_text_into_sentence_groups nlp (t_text text)) = map Inr translated_sentences
     \<and> db' = update_translation_fields db translation_id ''complete''
               (str_join '' '' translated_sentences)"
proof -
  assume r: "process_individual_translation nlp openai order db translation_id = Returns db'"
  then obtain translation where t: "get_translation db translation_id = Some translation"
    by (cases "get_translation db translation_id") (simp_all add: process_individual_translation_def)
  with r obtain job where x: "get_text db (tr_text_id translation) = Some job"
    by (cases "get_text db (tr_text_id translation)") (simp_all add: process_individual_translation_def)
  from r t x obtain ys where
    e: "executor_map order (\<lambda>chunk. translate openai chunk (tr_language translation))
          (split_text_into_sentence_groups nlp (t_text job)) = Returns ys"
    and d: "db' = update_translation_fields db translation_id ''complete'' (str_join '' '' ys)"
    by (simp add: process_individual_translation_def Let_def split: outcome.splits)
  from executor_map_Returns [OF e] t x d show ?thesis by blast
qed

lemma worker_async_Returns:
  "process_individual_translation_async nlp openai order db translation_id = Returns db' \<Longrightarrow>
   \<exists>translation text translated_sentences.
     get_translation db translation_id = Some translation
     \<and> get_text db (tr_text_id translation) = Some text
     \<and> map (translate_chunk_async openai (tr_language translation))
           (split_text_into_sentence_groups nlp (t_text text)) = map Inr translated_sentences
     \<and> db' = update_translation_fields db translation_id ''complete''
               (str_join '' '' translated_sentences)"
proof -
  assume r: "process_individual_translation_async nlp openai order db translation_id = Returns db'"
  then obtain translation where t: "get_translation db translation_id = Some translation"
    by (cases "get_translation db translation_id") (simp_all add: process_individual_translation_async_def)
  with r obtain job where x: "get_text db (tr_text_id translation) = Some job"
    by (cases "get_text db (tr_text_id translation)") (simp_all add: process_individual_translation_async_def)
  from r t x obtain ys where
    e: "gather order (map (translate_chunk_async openai (tr_language translation))
          (split_text_into_sentence_groups nlp (t_text job))) = Returns ys"
    and d: "db' = update_translation_fields db translation_id ''complete'' (str_join '' '' ys)"
    by (simp add: process_individual_translation_async_def Let_def split: outcome.splits)
  from gather_Returns [OF e] t x d show ?thesis by blast
qed

text \<open>
  C3 (aggregation order). When the worker returns, with whatever order of completion
  of its translation calls, the row of the Sub-job is complete and its
  \<open>translated_content\<close> is the join, with one space, of the translations of the
  chunks \<open>C0, ..., Cn\<close> in the order of the chunks: the list \<open>translated_sentences\<close>
  is, position by position, what \<open>translate\<close> gives for the chunk at that position.
  Any other order of completion under which the worker returns gives the same
  database. The same holds for the worker of tasks_async.py and the call it awaits.
\<close>

theorem aggregation_order:
  "(process_individual_translation nlp openai order db translation_id = Returns db' \<longrightarrow>
      (\<exists>translation job translated_sentences.
         get_translation db translation_id = Some translation
         \<and> get_text db (tr_text_id translation) = Some job
         \<and> map (\<lambda>chunk. translate openai chunk (tr_language translation))
               (split_text_into_sentence_groups nlp (t_text job)) = map Inr translated_sentences
         \<and> get_translation db' translation_id
             = Some (translation\<lparr>tr_status := ''complete'',
                       tr_translated_content := Some (str_join '' '' translated_sentences)\<rparr>)
         \<and> (\<forall>order' db''.
                process_individual_translation nlp openai order' db translation_id = Returns db''
                \<longrightarrow> db'' = db')))
   \<and> (process_individual_translation_async nlp openai order db translation_id = Returns db' \<longrightarrow>
      (\<exists>translation job translated_sentences.
         get_translation db translation_id = Some translation
         \<and> get_text db (tr_text_id translation) = Some job
         \<and> map (translate_chunk_async openai (tr_language translation))
               (split_text_into_sentence_groups nlp (t_text job)) = map Inr translated_sentences
         \<and> get_translation db' translation_id
             = Some (translation\<lparr>tr_status := ''complete'',
                       tr_translated_content := Some (str_join '' '' translated_sentences)\<rparr>)
         \<and> (\<forall>order' db''.
                process_individual_translation_async nlp openai order' db translation_id = Returns db''
                \<longrightarrow> db'' = db')))"
proof (intro conjI impI)
  assume r: "process_individual_translation nlp openai order db translation_id = Returns db'"
  from worker_Returns [OF r] obtain translation job ys where
    t: "get_translation db translation_id = Some translation"
    and x: "get_text db (tr_text_id translation) = Some job"
    and m: "map (\<lambda>chunk. translate openai chunk (tr_language translation))
              (split_text_into_sentence_groups nlp (t_text job)) = map Inr ys"
    and d: "db' = update_translation_fields db translation_id ''complete'' (str_join '' '' ys)"
    by blast
  have g: "get_translation db' translation_id
             = Some (translation\<lparr>tr_status := ''complete'',
                       tr_translated_content := Some (str_join '' '' ys)\<rparr>)"
    unfolding d using t by (rule get_translation_update)
  have i: "db'' = db'"
    if "process_individual_translation nlp openai order' db translation_id = Returns db''"
    for order' db''
  proof -
    from worker_Returns [OF that] t x obtain zs where
      "map (\<lambda>chunk. translate openai chunk (tr_language translation))
         (split_text_into_sentence_groups nlp (t_text job)) = map Inr zs"
      and "db'' = update_translation_fields db translation_id ''complete'' (str_join '' '' zs)"
      by auto
    with m d show ?thesis by (simp add: inj_map_eq_map)
  qed
  from t x m g i
  show "\<exists>translation job translated_sentences.
         get_translation db translation_id = Some translation
         \<and> get_text db (tr_text_id translation) = Some job
         \<and> map (\<lambda>chunk. translate openai chunk (tr_language translation))
               (split_text_into_sentence_groups nlp (t_text job)) = map Inr translated_sentences
         \<and> get_translation db' translation_id
             = Some (translation\<lparr>tr_status := ''complete'',
                       tr_translated_content := Some (str_join '' '' translated_sentences)\<rparr>)
         \<and> (\<forall>order' db''.
                process_individual_translation nlp openai order' db translation_id = Returns db''
                \<longrightarrow> db'' = db')"
    by blast
next
  assume r: "process_individual_translation_async nlp openai order db translation_id = Returns db'"
  from worker_async_Returns [OF r] obtain translation job ys where
    t: "get_translation db translation_id = Some translation"
    and x: "get_text db (tr_text_id translation) = Some job"
    and m: "map (translate_chunk_async openai (tr_language translation))
              (split_text_into_sentence_groups nlp (t_text job)) = map Inr ys"
    and d: "db' = update_translation_fields db translation_id ''complete'' (str_join '' '' ys)"
    by blast
  have g: "get_translation db' translation_id
             = Some (translation\<lparr>tr_status := ''complete'',
                       tr_translated_content := Some (str_join '' '' ys)\<rparr>)"
    unfolding d using t by (rule get_translation_update)
  have i: "db'' = db'"
    if "process_individual_translation_async nlp openai order' db translation_id = Returns db''"
    for order' db''
  proof -
    from worker_async_Returns [OF that] t x obtain zs where
      "map (translate_chunk_async openai (tr_language translation))
         (split_text_into_sentence_groups nlp (t_text job)) = map Inr zs"
      and "db'' = update_translation_fields db translation_id ''complete'' (str_join '' '' zs)"
      by auto
    with m d show ?thesis by (simp add: inj_map_eq_map)
  qed
  from t x m g i
  show "\<exists>translation job translated_sentences.
         get_translation db translation_id = Some translation
         \<and> get_text db (tr_text_id translation) = Some job
         \<and> map (translate_chunk_async openai (tr_language translation))
               (split_text_into_sentence_groups nlp (t_text job)) = map Inr translated_sentences
         \<and> get_translation db' translation_id
             = Some (translation\<lparr>tr_status := ''complete'',
                       tr_translated_content := Some (str_join '' '' translated_sentences)\<rparr>)
         \<and> (\<forall>order' db''.
                process_individual_translation_async nlp openai order' db translation_id = Returns db''
                \<longrightarrow> db'' = db')"
    by blast
qed

text \<open>
  The theorem at a text of 21 sentences, so two chunks, with the second translation
  call finishing first: the content is the translation of the first chunk, a space,
  the translation of the second. The worker of tasks_async.py returns for a text
  without sentences.
\<close>

theorem aggregation_order_witness:
  "process_individual_translation (\<lambda>t. replicate 21 t)
      (\<lambda>s u. Inr (if u = ''a'' then ''uno'' else ''veinte'')) [1, 0] example_db 1
    = Returns (update_translation_fields example_db 1 ''complete'' ''veinte uno'')
   \<and> process_individual_translation (\<lambda>t. replicate 21 t)
      (\<lambda>s u. Inr (if u = ''a'' then ''uno'' else ''veinte'')) [0, 1] example_db 1
    = Returns (update_translation_fields example_db 1 ''complete'' ''veinte uno'')
   \<and> map (\<lambda>chunk. translate (\<lambda>s u. Inr (if u = ''a'' then ''uno'' else ''veinte'')) chunk ''es'')
        (split_text_into_sentence_groups (\<lambda>t. replicate 21 t) ''a'') = [Inr ''veinte'', Inr ''uno'']
   \<and> process_individual_translation_async (\<lambda>t. [])
      (\<lambda>s u. Inr (if u = ''a'' then ''uno'' else ''veinte'')) [] example_db 1
    = Returns (update_translation_fields example_db 1 ''complete'' '''')"
proof -
  have a: "process_individual_translation (\<lambda>t. replicate 21 t)
      (\<lambda>s u. Inr (if u = ''a'' then ''uno'' else ''veinte'')) [1, 0] example_db 1
    = Returns (update_translation_fields example_db 1 ''complete'' ''veinte uno'')"
    by code_simp
  have b: "process_individual_translation (\<lambda>t. replicate 21 t)
      (\<lambda>s u. Inr (if u = ''a'' then ''uno'' else ''veinte'')) [0, 1] example_db 1
    = Returns (update_translation_fields example_db 1 ''complete'' ''veinte uno'')"
    by code_simp
  have c: "map (\<lambda>chunk. translate (\<lambda>s u. Inr (if u = ''a'' then ''uno'' else ''veinte'')) chunk ''es'')
        (split_text_into_sentence_groups (\<lambda>t. replicate 21 t) ''a'') = [Inr ''veinte'', Inr ''uno'']"
    by code_simp
  have d: "process_individual_translation_async (\<lambda>t. [])
      (\<lambda>s u. Inr (if u = ''a'' then ''uno'' else ''veinte'')) [] example_db 1
    = Returns (update_translation_fields example_db 1 ''complete'' '''')"
    by code_simp
  from a b c d aggregation_order [of "\<lambda>t. replicate 21 t"
        "\<lambda>s u. Inr (if u = ''a'' then ''uno'' else ''veinte'')" "[1, 0]" example_db 1
        "update_translation_fields example_db 1 ''complete'' ''veinte uno''"]
  show ?thesis by simp
qed

section \<open>The retrying client: budget and outcome\<close>

lemma query_loop_unfold:
  "0 < r \<Longrightarrow> query_loop post w (1 + int r) n tr =
     (case post n of
        Inr content \<Rightarrow> (Inr (Some content), tr @ [Request 48 (1 + int r)])
      | Inl e \<Rightarrow>
          if e = HTTPStatusError \<or> e = ReadTimeout
          then query_loop post w (int r) (Suc n) (tr @ [Request 48 (1 + int r), Sleep w])
          else (Inl e, tr @ [Request 48 (1 + int r)]))"
  by (subst query_loop.simps) (simp split: sum.splits error.splits)

lemma query_loop_last:
  "query_loop post w 1 n tr =
     (case post n of
        Inr content \<Rightarrow> (Inr (Some content), tr @ [Request 48 1])
      | Inl e \<Rightarrow> (if e = ReadTimeout then Inr None else Inl e, tr @ [Request 48 1]))"
  by (subst query_loop.simps) (simp split: sum.splits error.splits)

lemma request_trace_Suc:
  "0 < k \<Longrightarrow> request_trace w r (Suc k) = [Request 48 r, Sleep w] @ request_trace w (r - 1) k"
proof -
  assume "0 < k"
  then obtain j where k: "k = Suc j" by (cases k) auto
  have "map (\<lambda>i. [Request 48 (r - int i), Sleep w]) [0..<Suc j]
          = [Request 48 r, Sleep w] # map (\<lambda>i. [Request 48 (r - 1 - int i), Sleep w]) [0..<j]"
    by (simp add: upt_conv_Cons map_Suc_upt [symmetric] del: upt_Suc)
  then show ?thesis
    by (simp add: request_trace_def k algebra_simps del: upt_Suc)
qed

lemma query_loop_trace:
  "0 < r \<Longrightarrow>
   \<exists>k. 1 \<le> k \<and> k \<le> r
     \<and> snd (query_loop post w (int r) n tr) = tr @ request_trace w (int r) k
     \<and> (\<forall>i<k - 1. post (n + i) = Inl HTTPStatusError \<or> post (n + i) = Inl ReadTimeout)"
proof (induction r arbitrary: n tr)
  case 0
  then show ?case by simp
next
  case (Suc r)
  show ?case
  proof (cases "r = 0")
    case True
    have "snd (query_loop post w 1 n tr) = tr @ request_trace w 1 1"
      by (simp add: query_loop_last request_trace_def split: sum.splits)
    with True show ?thesis by auto
  next
    case False
    then have r: "0 < r" by simp
    show ?thesis
    proof (cases "post n = Inl HTTPStatusError \<or> post n = Inl ReadTimeout")
      case retry: True
      from Suc.IH [OF r, of "Suc n" "tr @ [Request 48 (int (Suc r)), Sleep w]"]
      obtain k where k: "1 \<le> k" "k \<le> r"
        "snd (query_loop post w (int r) (Suc n) (tr @ [Request 48 (int (Suc r)), Sleep w]))
           = (tr @ [Request 48 (int (Suc r)), Sleep w]) @ request_trace w (int r) k"
        "\<forall>i<k - 1. post (Suc n + i) = Inl HTTPStatusError \<or> post (Suc n + i) = Inl ReadTimeout"
        by blast
      have "snd (query_loop post w (int (Suc r)) n tr) = tr @ request_trace w (int (Suc r)) (Suc k)"
        using retry k(1,3) r by (auto simp: query_loop_unfold request_trace_Suc)
      moreover have "\<forall>i<Suc k - 1. post (n + i) = Inl HTTPStatusError \<or> post (n + i) = Inl ReadTimeout"
      proof (intro allI impI)
        fix i assume "i < Suc k - 1"
        then show "post (n + i) = Inl HTTPStatusError \<or> post (n + i) = Inl ReadTimeout"
          using retry k(4) by (cases i) auto
      qed
      ultimately show ?thesis using k(1,2) by (intro exI [of _ "Suc k"]) simp
    next
      case False
      then have "snd (query_loop post w (int (Suc r)) n tr) = tr @ request_trace w (int (Suc r)) 1"
        using r by (auto simp: query_loop_unfold request_trace_def split: sum.splits)
      then show ?thesis by (intro exI [of _ 1]) simp
    qed
  qed
qed

lemma query_loop_exhausted:
  "0 < r \<Longrightarrow> \<forall>i<r. post (n + i) = Inl HTTPStatusError \<or> post (n + i) = Inl ReadTimeout \<Longrightarrow>
   query_loop post w (int r) n tr
     = (if post (n + r - 1) = Inl HTTPStatusError then Inl HTTPStatusError else Inr None,
        tr @ request_trace w (int r) r)"
proof (induction r arbitrary: n tr)
  case 0
  then show ?case by simp
next
  case (Suc r)
  show ?case
  proof (cases "r = 0")
    case True
    with Suc.prems have "post n = Inl HTTPStatusError \<or> post n = Inl ReadTimeout" by auto
    with True show ?thesis
      by (auto simp: query_loop_last request_trace_def)
  next
    case False
    then have r: "0 < r" by simp
    from Suc.prems have retry: "post n = Inl HTTPStatusError \<or> post n = Inl ReadTimeout"
      by (metis add.right_neutral zero_less_Suc)
    from Suc.prems have rest: "\<forall>i<r. post (Suc n + i) = Inl HTTPStatusError \<or> post (Suc n + i) = Inl ReadTimeout"
      by (metis Suc_less_eq add_Suc_shift)
    from Suc.IH [OF r rest] retry r show ?thesis
      by (auto simp: query_loop_unfold request_trace_Suc)
  qed
qed

text \<open>
  C6 (retry budget). A call of \<open>query_gpt_async\<close> issues \<open>k\<close> requests, with
  \<open>1 \<le> k \<le> 42\<close>. Its trace is request, sleep, request, ..., request: every request has
  the timeout 48, exactly one sleep of 21 separates two consecutive requests, and the
  request number \<open>i\<close> (from 0) is issued with the counter at \<open>42 - i\<close>, one less for
  each failed attempt before it. Every request but the last failed with an error
  status or a read timeout. The loop terminates: \<open>query_loop\<close> is a total function,
  with the counter as its measure, and the trace is this finite list.
\<close>

theorem retry_budget:
  "\<exists>k. 1 \<le> k \<and> k \<le> 42
     \<and> snd (query_gpt_async post user_content language)
         = concat (map (\<lambda>i. [Request 48 (42 - int i), Sleep 21]) [0..<k - 1])
           @ [Request 48 (42 - int (k - 1))]
     \<and> (\<forall>i<k - 1. post (''Translate into '' @ language) user_content i = Inl HTTPStatusError
                  \<or> post (''Translate into '' @ language) user_content i = Inl ReadTimeout)"
  using query_loop_trace [of 42 "post (''Translate into '' @ language) user_content" 21 0 "[]"]
  by (simp add: query_gpt_async_def request_trace_def)

text \<open>
  The theorem at a service that answers an error status, then times out, then
  completes: three requests, two sleeps.
\<close>

theorem retry_budget_witness:
  "query_gpt_async
     (\<lambda>s u n. if n = 0 then Inl HTTPStatusError else if n = 1 then Inl ReadTimeout else Inr ''hola'')
     ''hello'' ''es''
   = (Inr (Some ''hola''), [Request 48 42, Sleep 21, Request 48 41, Sleep 21, Request 48 40])"
  using retry_budget [of "\<lambda>s u n. if n = 0 then Inl HTTPStatusError else if n = 1 then Inl ReadTimeout else Inr ''hola''" "''hello''" "''es''"]
  by (simp add: query_gpt_async_def query_loop.simps)

text \<open>
  C7 (exhausted retries). The budget is exhausted when all 42 requests fail with an
  error status or a read timeout. Then 42 requests were issued, and the outcome follows
  the last failure: an error status raises \<open>HTTPStatusError\<close> to the caller, a read
  timeout leaves the loop and the call returns \<open>None\<close>.
\<close>

theorem retries_exhausted:
  "\<forall>n<42. post (''Translate into '' @ language) user_content n = Inl HTTPStatusError
          \<or> post (''Translate into '' @ language) user_content n = Inl ReadTimeout \<Longrightarrow>
   (post (''Translate into '' @ language) user_content 41 = Inl HTTPStatusError
      \<longrightarrow> fst (query_gpt_async post user_content language) = Inl HTTPStatusError)
   \<and> (post (''Translate into '' @ language) user_content 41 = Inl ReadTimeout
      \<longrightarrow> fst (query_gpt_async post user_content language) = Inr None)
   \<and> snd (query_gpt_async post user_content language)
       = concat (map (\<lambda>i. [Request 48 (42 - int i), Sleep 21]) [0..<41]) @ [Request 48 1]"
  using query_loop_exhausted [of 42 "post (''Translate into '' @ language) user_content" 0 21 "[]"]
  by (simp add: query_gpt_async_def request_trace_def)

text \<open>
  The theorem at a service that always answers an error status, at one that always
  times out, and at one that times out only at the last request.
\<close>

theorem retries_exhausted_witness:
  "fst (query_gpt_async (\<lambda>s u n. Inl HTTPStatusError) ''hello'' ''es'') = Inl HTTPStatusError
   \<and> fst (query_gpt_async (\<lambda>s u n. Inl ReadTimeout) ''hello'' ''es'') = Inr None
   \<and> fst (query_gpt_async (\<lambda>s u n. if n < 41 then Inl HTTPStatusError else Inl ReadTimeout)
            ''hello'' ''es'') = Inr None"
  using retries_exhausted [of "\<lambda>s u n. Inl HTTPStatusError" "''es''" "''hello''"]
    retries_exhausted [of "\<lambda>s u n. Inl ReadTimeout" "''es''" "''hello''"]
    retries_exhausted [of "\<lambda>s u n. if n < 41 then Inl HTTPStatusError else Inl ReadTimeout" "''es''" "''hello''"]
  by simp

section \<open>The worker, run again\<close>

lemma update_first_twice:
  "(\<And>x. p x \<Longrightarrow> p (f x) \<and> f (f x) = f x) \<Longrightarrow>
   update_first p f (update_first p f xs) = update_first p f xs"
  by (induction xs) auto

lemma update_translation_fields_twice:
  "update_translation_fields (update_translation_fields db i status content) i status content
     = update_translation_fields db i status content"
  by (simp add: update_translation_fields_def update_first_twice)

lemma get_text_update_translation_fields:
  "get_text (update_translation_fields db i status content) j = get_text db j"
  by (simp add: get_text_def update_translation_fields_def)

lemma worker_unfold:
  "get_translation db translation_id = Some translation \<Longrightarrow>
   get_text db (tr_text_id translation) = Some job \<Longrightarrow>
   process_individual_translation nlp openai order db translation_id
     = (case executor_map order (\<lambda>chunk. translate openai chunk (tr_language translation))
              (split_text_into_sentence_groups nlp (t_text job)) of
          Blocks \<Rightarrow> Blocks
        | Raises e \<Rightarrow> Raises e
        | Returns translated_sentences \<Rightarrow>
            Returns (update_translation_fields db translation_id ''complete''
                       (str_join '' '' translated_sentences)))"
  by (simp add: process_individual_translation_def Let_def split: outcome.splits)

lemma worker_async_unfold:
  "get_translation db translation_id = Some translation \<Longrightarrow>
   get_text db (tr_text_id translation) = Some job \<Longrightarrow>
   process_individual_translation_async nlp openai order db translation_id
     = (case gather order (map (translate_chunk_async openai (tr_language translation))
              (split_text_into_sentence_groups nlp (t_text job))) of
          Blocks \<Rightarrow> Blocks
        | Raises e \<Rightarrow> Raises e
        | Returns translated_sentences \<Rightarrow>
            Returns (update_translation_fields db translation_id ''complete''
                       (str_join '' '' translated_sentences)))"
  by (simp add: process_individual_translation_async_def Let_def split: outcome.splits)

lemma executor_map_Returns_or_Blocks:
  "map f xs = map Inr ys \<Longrightarrow>
   executor_map order f xs = Returns ys \<or> executor_map order f xs = Blocks"
proof (cases "those (futures order (map f xs))")
  case None
  then show ?thesis by (simp add: executor_map_def)
next
  case (Some results)
  assume m: "map f xs = map Inr ys"
  from Some have "results = map f xs" by (rule futures_results)
  with Some m show ?thesis by (simp add: executor_map_def collect_results_map_Inr)
qed

lemma gather_loop_Returns_or_Blocks:
  "gather_loop order (map Inr ys) futs = Blocks
   \<or> (\<exists>zs. gather_loop order (map Inr ys) futs = Returns zs)"
  by (induction order "map Inr ys :: (error + 'a) list" futs rule: gather_loop.induct)
     (auto split: option.splits)

lemma gather_Returns_or_Blocks:
  "rs = map Inr ys \<Longrightarrow> gather order rs = Returns ys \<or> gather order rs = Blocks"
  using gather_loop_Returns_or_Blocks [of order ys "replicate (length (map Inr ys :: (error + 'a) list)) None"]
    gather_Returns [of order rs]
  by (auto simp: gather_def)

lemma worker_rerun:
  assumes r: "process_individual_translation nlp openai order db0 translation_id = Returns db"
  shows "process_individual_translation nlp openai order db translation_id = Returns db"
    and "process_individual_translation nlp openai order' db translation_id = Returns db
         \<or> process_individual_translation nlp openai order' db translation_id = Blocks"
proof -
  from worker_Returns [OF r] obtain translation job ys where
    t: "get_translation db0 translation_id = Some translation"
    and x: "get_text db0 (tr_text_id translation) = Some job"
    and m: "map (\<lambda>chunk. translate openai chunk (tr_language translation))
              (split_text_into_sentence_groups nlp (t_text job)) = map Inr ys"
    and d: "db = update_translation_fields db0 translation_id ''complete'' (str_join '' '' ys)"
    by blast
  from r t x have e: "executor_map order (\<lambda>chunk. translate openai chunk (tr_language translation))
              (split_text_into_sentence_groups nlp (t_text job)) = Returns ys"
    using executor_map_Returns_or_Blocks [OF m, of order]
    by (auto simp: worker_unfold split: outcome.splits)
  let ?t = "translation\<lparr>tr_status := ''complete'', tr_translated_content := Some (str_join '' '' ys)\<rparr>"
  have t': "get_translation db translation_id = Some ?t"
    unfolding d using t by (rule get_translation_update)
  have x': "get_text db (tr_text_id ?t) = Some job"
    using x by (simp add: d get_text_update_translation_fields)
  have u: "update_translation_fields db translation_id ''complete'' (str_join '' '' ys) = db"
    by (simp add: d update_translation_fields_twice)
  show "process_individual_translation nlp openai order db translation_id = Returns db"
    using e u by (simp add: worker_unfold [OF t' x'])
  show "process_individual_translation nlp openai order' db translation_id = Returns db
         \<or> process_individual_translation nlp openai order' db translation_id = Blocks"
    using executor_map_Returns_or_Blocks [OF m, of order'] u
    by (auto simp: worker_unfold [OF t' x'])
qed

lemma worker_async_rerun:
  assumes r: "process_individual_translation_async nlp openai order db0 translation_id = Returns db"
  shows "process_individual_translation_async nlp openai order db translation_id = Returns db"
    and "process_individual_translation_async nlp openai order' db translation_id = Returns db
         \<or> process_individual_translation_async nlp openai order' db translation_id = Blocks"
proof -
  from worker_async_Returns [OF r] obtain translation job ys where
    t: "get_translation db0 translation_id = Some translation"
    and x: "get_text db0 (tr_text_id translation) = Some job"
    and m: "map (translate_chunk_async openai (tr_language translation))
              (split_text_into_sentence_groups nlp (t_text job)) = map Inr ys"
    and d: "db = update_translation_fields db0 translation_id ''complete'' (str_join '' '' ys)"
    by blast
  from r t x have e: "gather order (map (translate_chunk_async openai (tr_language translation))
              (split_text_into_sentence_groups nlp (t_text job))) = Returns ys"
    using gather_Returns_or_Blocks [OF m, of order]
    by (auto simp: worker_async_unfold split: outcome.splits)
  let ?t = "translation\<lparr>tr_status := ''complete'', tr_translated_content := Some (str_join '' '' ys)\<rparr>"
  have t': "get_translation db translation_id = Some ?t"
    unfolding d using t by (rule get_translation_update)
  have x': "get_text db (tr_text_id ?t) = Some job"
    using x by (simp add: d get_text_update_translation_fields)
  have u: "update_translation_fields db translation_id ''complete'' (str_join '' '' ys) = db"
    by (simp add: d update_translation_fields_twice)
  show "process_individual_translation_async nlp openai order db translation_id = Returns db"
    using e u by (simp add: worker_async_unfold [OF t' x'])
  show "process_individual_translation_async nlp openai order' db translation_id = Returns db
         \<or> process_individual_translation_async nlp openai order' db translation_id = Blocks"
    using gather_Returns_or_Blocks [OF m, of order'] u
    by (auto simp: worker_async_unfold [OF t' x'])
qed

lemma those_map_Some: "those (map Some ys) = Some ys"
  by (induction ys) auto

lemma fold_futures_nth:
  "length futs = length rs \<Longrightarrow> i < length rs \<Longrightarrow>
   i \<in> set order \<or> futs ! i = Some (rs ! i) \<Longrightarrow>
   fold (\<lambda>i futs. if i < length futs then futs[i := Some (rs ! i)] else futs) order futs ! i
     = Some (rs ! i)"
proof (induction order arbitrary: futs)
  case Nil
  then show ?case by simp
next
  case (Cons j order)
  show ?case
  proof (cases "j < length futs")
    case True
    have l: "length (futs[j := Some (rs ! j)]) = length rs" using Cons.prems(1) by simp
    have "i \<in> set order \<or> futs[j := Some (rs ! j)] ! i = Some (rs ! i)"
      using Cons.prems True by (cases "i = j") auto
    from Cons.IH [OF l Cons.prems(2) this] True show ?thesis by simp
  next
    case False
    with Cons.prems have "i \<noteq> j" by auto
    with Cons.prems have "i \<in> set order \<or> futs ! i = Some (rs ! i)" by auto
    from Cons.IH [OF Cons.prems(1,2) this] False show ?thesis by simp
  qed
qed

lemma futures_complete:
  assumes "\<forall>i<length rs. i \<in> set order"
  shows "futures order rs = map Some rs"
proof (rule nth_equalityI)
  show "length (futures order rs) = length (map Some rs)"
    using futures_slots [of order rs] by simp
next
  fix i assume "i < length (futures order rs)"
  then have i: "i < length rs" using futures_slots [of order rs] by simp
  with assms have "i \<in> set order" by simp
  with i fold_futures_nth [of "replicate (length rs) None" rs i order]
  show "futures order rs ! i = map Some rs ! i"
    by (simp add: futures_def)
qed

lemma executor_map_complete:
  "map f xs = map Inr ys \<Longrightarrow> \<forall>i<length xs. i \<in> set order \<Longrightarrow>
   executor_map order f xs = Returns ys"
proof -
  assume m: "map f xs = map Inr ys" and c: "\<forall>i<length xs. i \<in> set order"
  from c have "futures order (map f xs) = map Some (map f xs)"
    by (intro futures_complete) simp
  then have "those (futures order (map f xs)) = Some (map f xs)"
    by (simp only: those_map_Some)
  then show ?thesis
    by (simp add: executor_map_def m collect_results_map_Inr)
qed

lemma gather_loop_futures:
  "length futs = length ys \<Longrightarrow>
   gather_loop order (map Inr ys) futs
     = (case those (fold (\<lambda>i futs. if i < length futs then futs[i := Some (ys ! i)] else futs)
                      order futs) of
          None \<Rightarrow> Blocks
        | Some zs \<Rightarrow> Returns zs)"
  by (induction order arbitrary: futs) simp_all

lemma gather_complete:
  "rs = map Inr ys \<Longrightarrow> \<forall>i<length rs. i \<in> set order \<Longrightarrow> gather order rs = Returns ys"
proof -
  assume m: "rs = map Inr ys" and c: "\<forall>i<length rs. i \<in> set order"
  from c m have "futures order ys = map Some ys"
    by (intro futures_complete) simp
  then have "those (futures order ys) = Some ys"
    by (simp only: those_map_Some)
  with gather_loop_futures [of "replicate (length ys) None" ys order] m
  show ?thesis
    by (simp add: gather_def futures_def)
qed

text \<open>
  C8 as the claim states it fails. The worker has no test of the status of its row: a
  second run translates the chunks again and writes what this run got. Here the first
  run completes the Sub-job with the content \<^verbatim>\<open>hola\<close>; the second run, to which the
  service gives another translation of the same chunk, replaces it by \<^verbatim>\<open>buenas\<close>.
\<close>

theorem rerun_changes_content_counterexample:
  "process_individual_translation (\<lambda>t. [t]) (\<lambda>s u. Inr ''hola'') [0] example_db 1
     = Returns (update_translation_fields example_db 1 ''complete'' ''hola'')
   \<and> map tr_status (db_translations (update_translation_fields example_db 1 ''complete'' ''hola''))
       = [''complete'']
   \<and> map tr_translated_content
         (db_translations (update_translation_fields example_db 1 ''complete'' ''hola''))
       = [Some ''hola'']
   \<and> process_individual_translation (\<lambda>t. [t]) (\<lambda>s u. Inr ''buenas'') [0]
         (update_translation_fields example_db 1 ''complete'' ''hola'') 1
     = Returns (update_translation_fields example_db 1 ''complete'' ''buenas'')
   \<and> map tr_translated_content
         (db_translations (update_translation_fields example_db 1 ''complete'' ''buenas''))
       = [Some ''buenas'']"
  by code_simp

text \<open>
  C8, amended (the worker run again on a complete Sub-job). Let the Sub-job be
  complete in the database \<open>db\<close>, with the row \<open>translation\<close>.
  \<^item> A run that returns has written the row again, and nothing else: the database it
    returns is \<open>db\<close> with the status \<^verbatim>\<open>complete\<close> and, as \<open>translated_content\<close>, the join
    with one space of the translations that this run got for the chunks, in the order
    of the chunks. So the status is not reverted, and the row is the old row with the
    content replaced by this run's.
  \<^item> The run does return, with that write, when every translation call finishes and
    none raises.
  \<^item> A run that raises leaves the database as it is, and a run that does not finish
    is no step.
  \<^item> The content is unchanged when the service answers as it did in the run that
    completed the Sub-job: that run again, on the database it returned, returns the
    same database, and with another order of completion it returns the same database
    or does not finish.

  All four hold for the worker of tasks_async.py too, with the call it awaits.
\<close>

theorem rerun_on_complete:
  assumes "get_translation db translation_id = Some translation"
    and "tr_status translation = ''complete''"
  shows
  "(\<forall>db'. process_individual_translation nlp openai order db translation_id = Returns db' \<longrightarrow>
      (\<exists>job translated_sentences.
         get_text db (tr_text_id translation) = Some job
         \<and> map (\<lambda>chunk. translate openai chunk (tr_language translation))
               (split_text_into_sentence_groups nlp (t_text job)) = map Inr translated_sentences
         \<and> db' = update_translation_fields db translation_id ''complete''
                   (str_join '' '' translated_sentences)
         \<and> get_translation db' translation_id
             = Some (translation\<lparr>tr_translated_content :=
                                     Some (str_join '' '' translated_sentences)\<rparr>)))
   \<and> (\<forall>job translated_sentences.
         get_text db (tr_text_id translation) = Some job
         \<and> map (\<lambda>chunk. translate openai chunk (tr_language translation))
               (split_text_into_sentence_groups nlp (t_text job)) = map Inr translated_sentences
         \<and> (\<forall>i<length (split_text_into_sentence_groups nlp (t_text job)). i \<in> set order)
         \<longrightarrow> process_individual_translation nlp openai order db translation_id
               = Returns (update_translation_fields db translation_id ''complete''
                            (str_join '' '' translated_sentences)))
   \<and> (\<forall>e sys sys'.
         store sys = db
         \<and> process_individual_translation nlp openai order db translation_id = Raises e
         \<and> step nlp (Work translation_id openai order) sys = Some sys'
         \<longrightarrow> store sys' = db)
   \<and> (\<forall>sys.
         store sys = db
         \<and> process_individual_translation nlp openai order db translation_id = Blocks
         \<longrightarrow> step nlp (Work translation_id openai order) sys = None)
   \<and> (\<forall>db0. process_individual_translation nlp openai order db0 translation_id = Returns db
         \<longrightarrow> process_individual_translation nlp openai order db translation_id = Returns db
           \<and> (\<forall>order'. process_individual_translation nlp openai order' db translation_id = Returns db
                      \<or> process_individual_translation nlp openai order' db translation_id = Blocks))
   \<and> (\<forall>db'. process_individual_translation_async nlp openai order db translation_id = Returns db' \<longrightarrow>
      (\<exists>job translated_sentences.
         get_text db (tr_text_id translation) = Some job
         \<and> map (translate_chunk_async openai (tr_language translation))
               (split_text_into_sentence_groups nlp (t_text job)) = map Inr translated_sentences
         \<and> db' = update_translation_fields db translation_id ''complete''
                   (str_join '' '' translated_sentences)
         \<and> get_translation db' translation_id
             = Some (translation\<lparr>tr_translated_content :=
                                     Some (str_join '' '' translated_sentences)\<rparr>)))
   \<and> (\<forall>job translated_sentences.
         get_text db (tr_text_id translation) = Some job
         \<and> map (translate_chunk_async openai (tr_language translation))
               (split_text_into_sentence_groups nlp (t_text job)) = map Inr translated_sentences
         \<and> (\<forall>i<length (split_text_into_sentence_groups nlp (t_text job)). i \<in> set order)
         \<longrightarrow> process_individual_translation_async nlp openai order db translation_id
               = Returns (update_translation_fields db translation_id ''complete''
                            (str_join '' '' translated_sentences)))
   \<and> (\<forall>e sys sys'.
         store sys = db
         \<and> process_individual_translation_async nlp openai order db translation_id = Raises e
         \<and> step nlp (WorkAsync translation_id openai order) sys = Some sys'
         \<longrightarrow> store sys' = db)
   \<and> (\<forall>sys.
         store sys = db
         \<and> process_individual_translation_async nlp openai order db translation_id = Blocks
         \<longrightarrow> step nlp (WorkAsync translation_id openai order) sys = None)
   \<and> (\<forall>db0. process_individual_translation_async nlp openai order db0 translation_id = Returns db
         \<longrightarrow> process_individual_translation_async nlp openai order db translation_id = Returns db
           \<and> (\<forall>order'. process_individual_translation_async nlp openai order' db translation_id = Returns db
                      \<or> process_individual_translation_async nlp openai order' db translation_id = Blocks))"
proof -
  have same: "translation\<lparr>tr_status := ''complete'', tr_translated_content := Some content\<rparr>
                = translation\<lparr>tr_translated_content := Some content\<rparr>" for content
    using assms(2) by (cases translation) simp
  have s1: "\<exists>job translated_sentences.
         get_text db (tr_text_id translation) = Some job
         \<and> map (\<lambda>chunk. translate openai chunk (tr_language translation))
               (split_text_into_sentence_groups nlp (t_text job)) = map Inr translated_sentences
         \<and> db' = update_translation_fields db translation_id ''complete''
                   (str_join '' '' translated_sentences)
         \<and> get_translation db' translation_id
             = Some (translation\<lparr>tr_translated_content :=
                                     Some (str_join '' '' translated_sentences)\<rparr>)"
    if r: "process_individual_translation nlp openai order db translation_id = Returns db'" for db'
  proof -
    from worker_Returns [OF r] assms(1) obtain job ys where
      x: "get_text db (tr_text_id translation) = Some job"
      and m: "map (\<lambda>chunk. translate openai chunk (tr_language translation))
                (split_text_into_sentence_groups nlp (t_text job)) = map Inr ys"
      and d: "db' = update_translation_fields db translation_id ''complete'' (str_join '' '' ys)"
      by auto
    have "get_translation db' translation_id
            = Some (translation\<lparr>tr_translated_content := Some (str_join '' '' ys)\<rparr>)"
      unfolding d using get_translation_update [OF assms(1), of "''complete''" "str_join '' '' ys"]
      by (simp only: same)
    with x m d show ?thesis by blast
  qed
  have s2: "process_individual_translation nlp openai order db translation_id
               = Returns (update_translation_fields db translation_id ''complete''
                            (str_join '' '' ys))"
    if "get_text db (tr_text_id translation) = Some job"
      and "map (\<lambda>chunk. translate openai chunk (tr_language translation))
               (split_text_into_sentence_groups nlp (t_text job)) = map Inr ys"
      and "\<forall>i<length (split_text_into_sentence_groups nlp (t_text job)). i \<in> set order"
    for job ys
    using executor_map_complete [OF that(2,3)]
    by (simp add: worker_unfold [OF assms(1) that(1)])
  have s3: "store sys' = db"
    if "store sys = db"
      and "process_individual_translation nlp openai order db translation_id = Raises e"
      and "step nlp (Work translation_id openai order) sys = Some sys'"
    for e sys sys'
    using that by (auto split: option.splits worker_state.splits)
  have s4: "step nlp (Work translation_id openai order) sys = None"
    if "store sys = db"
      and "process_individual_translation nlp openai order db translation_id = Blocks"
    for sys
    using that by (auto split: option.splits worker_state.splits)
  have a1: "\<exists>job translated_sentences.
         get_text db (tr_text_id translation) = Some job
         \<and> map (translate_chunk_async openai (tr_language translation))
               (split_text_into_sentence_groups nlp (t_text job)) = map Inr translated_sentences
         \<and> db' = update_translation_fields db translation_id ''complete''
                   (str_join '' '' translated_sentences)
         \<and> get_translation db' translation_id
             = Some (translation\<lparr>tr_translated_content :=
                                     Some (str_join '' '' translated_sentences)\<rparr>)"
    if r: "process_individual_translation_async nlp openai order db translation_id = Returns db'" for db'
  proof -
    from worker_async_Returns [OF r] assms(1) obtain job ys where
      x: "get_text db (tr_text_id translation) = Some job"
      and m: "map (translate_chunk_async openai (tr_language translation))
                (split_text_into_sentence_groups nlp (t_text job)) = map Inr ys"
      and d: "db' = update_translation_fields db translation_id ''complete'' (str_join '' '' ys)"
      by auto
    have "get_translation db' translation_id
            = Some (translation\<lparr>tr_translated_content := Some (str_join '' '' ys)\<rparr>)"
      unfolding d using get_translation_update [OF assms(1), of "''complete''" "str_join '' '' ys"]
      by (simp only: same)
    with x m d show ?thesis by blast
  qed
  have a2: "process_individual_translation_async nlp openai order db translation_id
               = Returns (update_translation_fields db translation_id ''complete''
                            (str_join '' '' ys))"
    if "get_text db (tr_text_id translation) = Some job"
      and "map (translate_chunk_async openai (tr_language translation))
               (split_text_into_sentence_groups nlp (t_text job)) = map Inr ys"
      and "\<forall>i<length (split_text_into_sentence_groups nlp (t_text job)). i \<in> set order"
    for job ys
  proof -
    from that(3) have "\<forall>i<length (map (translate_chunk_async openai (tr_language translation))
               (split_text_into_sentence_groups nlp (t_text job))). i \<in> set order"
      by simp
    from gather_complete [OF that(2) this] show ?thesis
      by (simp add: worker_async_unfold [OF assms(1) that(1)])
  qed
  have a3: "store sys' = db"
    if "store sys = db"
      and "process_individual_translation_async nlp openai order db translation_id = Raises e"
      and "step nlp (WorkAsync translation_id openai order) sys = Some sys'"
    for e sys sys'
    using that by (auto split: option.splits worker_state.splits)
  have a4: "step nlp (WorkAsync translation_id openai order) sys = None"
    if "store sys = db"
      and "process_individual_translation_async nlp openai order db translation_id = Blocks"
    for sys
    using that by (auto split: option.splits worker_state.splits)
  show ?thesis
    apply (intro conjI allI impI)
    subgoal by (rule s1)
    subgoal by (elim conjE) (rule s2, assumption+)
    subgoal by (elim conjE) (rule s3, assumption+)
    subgoal by (elim conjE) (rule s4, assumption+)
    subgoal by (rule worker_rerun(1))
    subgoal by (rule worker_rerun(2))
    subgoal by (rule a1)
    subgoal by (elim conjE) (rule a2, assumption+)
    subgoal by (elim conjE) (rule a3, assumption+)
    subgoal by (elim conjE) (rule a4, assumption+)
    subgoal by (rule worker_async_rerun(1))
    subgoal by (rule worker_async_rerun(2))
    done
qed

text \<open>
  The theorem at the Sub-job that the first run of the counterexample completed, with
  the content \<^verbatim>\<open>hola\<close>. A second run whose call finishes with \<^verbatim>\<open>buenas\<close>
  returns, and the row is the old row with the content \<^verbatim>\<open>buenas\<close>; a second run
  whose call raises leaves the row as it is; a second run whose call does not finish
  is no step; a second run to which the service answers \<^verbatim>\<open>hola\<close> again changes
  nothing. For the worker of tasks_async.py, at a text without sentences.
\<close>

theorem rerun_on_complete_witness:
  "get_translation (update_translation_fields example_db 1 ''complete'' ''hola'') 1
     = Some \<lparr>tr_id = 1, tr_text_id = 1, tr_status = ''complete'', tr_language = ''es'',
             tr_translated_content = Some ''hola''\<rparr>
   \<and> process_individual_translation (\<lambda>t. [t]) (\<lambda>s u. Inr ''buenas'') [0]
         (update_translation_fields example_db 1 ''complete'' ''hola'') 1
     = Returns (update_translation_fields
                  (update_translation_fields example_db 1 ''complete'' ''hola'') 1
                  ''complete'' ''buenas'')
   \<and> get_translation
         (update_translation_fields
            (update_translation_fields example_db 1 ''complete'' ''hola'') 1
            ''complete'' ''buenas'') 1
     = Some \<lparr>tr_id = 1, tr_text_id = 1, tr_status = ''complete'', tr_language = ''es'',
             tr_translated_content = Some ''buenas''\<rparr>
   \<and> process_individual_translation (\<lambda>t. [t]) (\<lambda>s u. Inl APIError) [0]
         (update_translation_fields example_db 1 ''complete'' ''hola'') 1
     = Raises APIError
   \<and> map_option (\<lambda>sys. db_translations (store sys))
         (step (\<lambda>t. [t]) (Work 1 (\<lambda>s u. Inl APIError) [0])
            \<lparr>store = update_translation_fields example_db 1 ''complete'' ''hola'',
             orchestrations = (\<lambda>i. None),
             workers = (\<lambda>i. if i = 1 then Some Running else None)\<rparr>)
     = Some [\<lparr>tr_id = 1, tr_text_id = 1, tr_status = ''complete'', tr_language = ''es'',
              tr_translated_content = Some ''hola''\<rparr>]
   \<and> process_individual_translation (\<lambda>t. [t]) (\<lambda>s u. Inr ''buenas'') []
         (update_translation_fields example_db 1 ''complete'' ''hola'') 1
     = Blocks
   \<and> Option.is_none
         (step (\<lambda>t. [t]) (Work 1 (\<lambda>s u. Inr ''buenas'') [])
            \<lparr>store = update_translation_fields example_db 1 ''complete'' ''hola'',
             orchestrations = (\<lambda>i. None),
             workers = (\<lambda>i. if i = 1 then Some Running else None)\<rparr>)
   \<and> process_individual_translation (\<lambda>t. [t]) (\<lambda>s u. Inr ''hola'') [0] example_db 1
     = Returns (update_translation_fields example_db 1 ''complete'' ''hola'')
   \<and> process_individual_translation (\<lambda>t. [t]) (\<lambda>s u. Inr ''hola'') [0]
         (update_translation_fields example_db 1 ''complete'' ''hola'') 1
     = Returns (update_translation_fields example_db 1 ''complete'' ''hola'')
   \<and> process_individual_translation_async (\<lambda>t. []) (\<lambda>s u. Inr ''hola'') [] example_db 1
     = Returns (update_translation_fields example_db 1 ''complete'' [])
   \<and> process_individual_translation_async (\<lambda>t. []) (\<lambda>s u. Inr ''hola'') []
         (update_translation_fields example_db 1 ''complete'' []) 1
     = Returns (update_translation_fields example_db 1 ''complete'' [])"
proof -
  let ?db = "update_translation_fields example_db 1 ''complete'' ''hola''"
  let ?row = "\<lparr>tr_id = 1, tr_text_id = 1, tr_status = ''complete'', tr_language = ''es'',
             tr_translated_content = Some ''hola''\<rparr>"
  have a: "get_translation ?db 1 = Some ?row"
    by code_simp
  have st: "tr_status ?row = ''complete''"
    by simp
  note inst = rerun_on_complete [OF a st]
  have x: "get_text ?db (tr_text_id ?row) = Some \<lparr>t_id = 1, t_text = ''a'', t_status = ''pending''\<rparr>"
    by code_simp
  have m: "map (\<lambda>chunk. translate (\<lambda>s u. Inr ''buenas'') chunk (tr_language ?row))
             (split_text_into_sentence_groups (\<lambda>t. [t])
                (t_text \<lparr>t_id = 1, t_text = ''a'', t_status = ''pending''\<rparr>))
           = map Inr [''buenas'']"
    by code_simp
  have c: "\<forall>i<length (split_text_into_sentence_groups (\<lambda>t. [t])
                (t_text \<lparr>t_id = 1, t_text = ''a'', t_status = ''pending''\<rparr>)). i \<in> set [0]"
    by (simp add: split_text_into_sentence_groups_def group_sentences_def)
  from inst [of "\<lambda>t. [t]" "\<lambda>s u. Inr ''buenas''" "[0]", THEN conjunct2, THEN conjunct1,
      rule_format, OF conjI [OF x conjI [OF m c]]]
  have b: "process_individual_translation (\<lambda>t. [t]) (\<lambda>s u. Inr ''buenas'') [0] ?db 1
     = Returns (update_translation_fields ?db 1 ''complete'' ''buenas'')"
    by simp
  have g: "get_translation (update_translation_fields ?db 1 ''complete'' ''buenas'') 1
     = Some \<lparr>tr_id = 1, tr_text_id = 1, tr_status = ''complete'', tr_language = ''es'',
             tr_translated_content = Some ''buenas''\<rparr>"
    by code_simp
  have r: "process_individual_translation (\<lambda>t. [t]) (\<lambda>s u. Inl APIError) [0] ?db 1
     = Raises APIError"
    by code_simp
  have r': "map_option (\<lambda>sys. db_translations (store sys))
         (step (\<lambda>t. [t]) (Work 1 (\<lambda>s u. Inl APIError) [0])
            \<lparr>store = ?db, orchestrations = (\<lambda>i. None),
             workers = (\<lambda>i. if i = 1 then Some Running else None)\<rparr>)
     = Some [?row]"
    by code_simp
  have k: "process_individual_translation (\<lambda>t. [t]) (\<lambda>s u. Inr ''buenas'') [] ?db 1 = Blocks"
    by code_simp
  from inst [of "\<lambda>t. [t]" "\<lambda>s u. Inr ''buenas''" "[]", THEN conjunct2, THEN conjunct2,
      THEN conjunct2, THEN conjunct1, rule_format,
      of "\<lparr>store = ?db, orchestrations = (\<lambda>i. None),
             workers = (\<lambda>i. if i = 1 then Some Running else None)\<rparr>"] k
  have k': "Option.is_none
         (step (\<lambda>t. [t]) (Work 1 (\<lambda>s u. Inr ''buenas'') [])
            \<lparr>store = ?db, orchestrations = (\<lambda>i. None),
             workers = (\<lambda>i. if i = 1 then Some Running else None)\<rparr>)"
    by simp
  have d: "process_individual_translation (\<lambda>t. [t]) (\<lambda>s u. Inr ''hola'') [0] example_db 1
     = Returns ?db"
    by code_simp
  from inst [of "\<lambda>t. [t]" "\<lambda>s u. Inr ''hola''" "[0]", THEN conjunct2, THEN conjunct2,
      THEN conjunct2, THEN conjunct2, THEN conjunct1, rule_format, OF d]
  have e: "process_individual_translation (\<lambda>t. [t]) (\<lambda>s u. Inr ''hola'') [0] ?db 1 = Returns ?db"
    by blast
  let ?dba = "update_translation_fields example_db 1 ''complete'' []"
  have aa: "get_translation ?dba 1
     = Some \<lparr>tr_id = 1, tr_text_id = 1, tr_status = ''complete'', tr_language = ''es'',
             tr_translated_content = Some []\<rparr>"
    by code_simp
  have f: "process_individual_translation_async (\<lambda>t. []) (\<lambda>s u. Inr ''hola'') [] example_db 1
     = Returns ?dba"
    by code_simp
  from rerun_on_complete [OF aa, of "\<lambda>t. []" "\<lambda>s u. Inr ''hola''" "[]",
      THEN conjunct2, THEN conjunct2, THEN conjunct2, THEN conjunct2, THEN conjunct2,
      THEN conjunct2, THEN conjunct2, THEN conjunct2, THEN conjunct2, rule_format, OF _ f]
  have h: "process_individual_translation_async (\<lambda>t. []) (\<lambda>s u. Inr ''hola'') [] ?dba 1
     = Returns ?dba"
    by simp
  from a b g r r' k k' d e f h show ?thesis by simp
qed

section \<open>Submitting and polling a job\<close>

lemma create_translations_fold:
  "fold (\<lambda>language db'.
           snd (create_translation db'
                  \<lparr>in_text_id = text_id, in_language = language, in_status = status\<rparr>))
        languages db
   = db\<lparr>db_translations := db_translations db @
            map (\<lambda>(i, language).
                   \<lparr>tr_id = db_translations_seq db + int i, tr_text_id = text_id,
                    tr_status = status, tr_language = language,
                    tr_translated_content = None\<rparr>)
                (enumerate 0 languages),
         db_translations_seq := db_translations_seq db + int (length languages)\<rparr>"
proof (induction languages arbitrary: db)
  case Nil
  then show ?case by simp
next
  case (Cons language languages)
  show ?case
    unfolding fold_simps Cons.IH
    by (simp add: create_translation_def Let_def enumerate_Suc_eq [of 0]
          case_prod_beta comp_def algebra_simps)
qed

lemma create_translation_task_eq:
  "create_translation_task db \<lparr>req_text = text, req_languages = languages\<rparr>
   = (\<lparr>t_id = db_texts_seq db, t_text = text, t_status = ''pending''\<rparr>,
      \<lparr>db_texts = db_texts db @ [\<lparr>t_id = db_texts_seq db, t_text = text, t_status = ''pending''\<rparr>],
       db_translations = db_translations db @
         map (\<lambda>(i, language).
                \<lparr>tr_id = db_translations_seq db + int i, tr_text_id = db_texts_seq db,
                 tr_status = ''pending'', tr_language = language,
                 tr_translated_content = None\<rparr>)
             (enumerate 0 languages),
       db_texts_seq = db_texts_seq db + 1,
       db_translations_seq = db_translations_seq db + int (length languages)\<rparr>)"
  by (simp add: create_translation_task_def create_text_def Let_def create_translations_fold)

text \<open>
  C9 (submit). \<open>create_translation_task\<close> appends to the table of texts exactly one
  row, with the text of the request and the status \<^verbatim>\<open>pending\<close>, and to the table
  of translations exactly one row for each language of the request, in the order of
  the list, each with that language, the id of the new text and the status
  \<^verbatim>\<open>pending\<close>, and no content; the rows that were there are unchanged, and it
  returns the new text. The endpoint of main.py does this, queues the orchestration
  of the new job, and returns the id of the job.
\<close>

theorem submit_creates_records:
  "create_translation_task db \<lparr>req_text = text, req_languages = languages\<rparr>
   = (\<lparr>t_id = db_texts_seq db, t_text = text, t_status = ''pending''\<rparr>,
      \<lparr>db_texts = db_texts db @ [\<lparr>t_id = db_texts_seq db, t_text = text, t_status = ''pending''\<rparr>],
       db_translations = db_translations db @
         map (\<lambda>(i, language).
                \<lparr>tr_id = db_translations_seq db + int i, tr_text_id = db_texts_seq db,
                 tr_status = ''pending'', tr_language = language,
                 tr_translated_content = None\<rparr>)
             (enumerate 0 languages),
       db_texts_seq = db_texts_seq db + 1,
       db_translations_seq = db_translations_seq db + int (length languages)\<rparr>)
   \<and> translate_endpoint sys languages text
     = (db_texts_seq (store sys),
        sys\<lparr>store := snd (create_translation_task (store sys)
                            \<lparr>req_text = text, req_languages = languages\<rparr>),
            orchestrations := (orchestrations sys)(db_texts_seq (store sys) \<mapsto> Scheduled)\<rparr>)"
  by (simp add: translate_endpoint_def create_translation_task_eq)

lemma get_text_None: "get_text db task_id = None \<longleftrightarrow> task_id \<notin> t_id ` set (db_texts db)"
  by (auto simp: get_text_def find_None_iff)

text \<open>
  C10 (polling an unknown job). \<open>get_text\<close> gives \<open>None\<close> exactly for an id that no
  row of the table of texts has, and \<open>get_translate\<close> raises \<open>AttributeError\<close> exactly
  for those ids: it reads \<^verbatim>\<open>task.status\<close> before any test. For the id of a stored
  job it returns an answer.
\<close>

theorem poll_unknown_job:
  "(get_text db task_id = None \<longleftrightarrow> task_id \<notin> t_id ` set (db_texts db))
   \<and> (get_translate db task_id = Inl AttributeError \<longleftrightarrow> task_id \<notin> t_id ` set (db_texts db))
   \<and> ((\<exists>response. get_translate db task_id = Inr response) \<longleftrightarrow> task_id \<in> t_id ` set (db_texts db))"
proof (cases "get_text db task_id")
  case None
  then show ?thesis by (simp add: get_translate_def get_text_None [symmetric])
next
  case (Some task)
  then have "task_id \<in> t_id ` set (db_texts db)"
    using get_text_None [of db task_id] by auto
  with Some show ?thesis by (simp add: get_translate_def)
qed

theorem poll_unknown_job_witness:
  "get_translate example_db 7 = Inl AttributeError
   \<and> get_translate example_db 1 = Inr InProgress
   \<and> get_translate empty_database 1 = Inl AttributeError"
  using poll_unknown_job [of example_db 7] poll_unknown_job [of example_db 1]
    poll_unknown_job [of empty_database 1]
  by (simp add: example_db_def empty_database_def get_translate_def get_text_def)

section \<open>The orchestration: an invariant of the runs\<close>

lemma invariant_initial: "orchestration_invariant initial_system"
  by (simp add: orchestration_invariant_def initial_system_def empty_database_def)

lemma invariantD:
  assumes "orchestration_invariant sys"
  shows "\<forall>job\<in>set (db_texts (store sys)). t_id job < db_texts_seq (store sys)"
    and "distinct (map tr_id (db_translations (store sys)))"
    and "\<forall>t\<in>set (db_translations (store sys)). tr_id t < db_translations_seq (store sys)"
    and "\<forall>i. workers sys i \<noteq> None \<longrightarrow> i < db_translations_seq (store sys)"
    and "\<forall>job\<in>set (db_texts (store sys)). t_status job = ''pending''
            \<or> t_status job = ''completed'' \<and> orchestrations sys (t_id job) = Some Finalized"
    and "\<forall>t\<in>set (db_translations (store sys)). orchestrations sys (tr_text_id t) = Some Finalized
              \<longrightarrow> workers sys (tr_id t) = Some Succeeded"
    and "\<forall>t\<in>set (db_translations (store sys)). \<forall>tasks.
            orchestrations sys (tr_text_id t) = Some (Waiting tasks) \<longrightarrow> tr_id t \<in> set tasks"
    and "\<forall>t\<in>set (db_translations (store sys)).
            workers sys (tr_id t) = Some Succeeded \<longrightarrow> tr_status t = ''complete''"
    and "\<forall>t\<in>set (db_translations (store sys)).
            workers sys (tr_id t) \<noteq> None \<longrightarrow> orchestrations sys (tr_text_id t) \<noteq> Some Scheduled"
    and "\<forall>t\<in>set (db_translations (store sys)). tr_text_id t < db_texts_seq (store sys)"
  using assms unfolding orchestration_invariant_def by blast+

lemma invariantI:
  assumes "\<forall>job\<in>set (db_texts (store sys)). t_id job < db_texts_seq (store sys)"
    and "distinct (map tr_id (db_translations (store sys)))"
    and "\<forall>t\<in>set (db_translations (store sys)). tr_id t < db_translations_seq (store sys)"
    and "\<forall>i. workers sys i \<noteq> None \<longrightarrow> i < db_translations_seq (store sys)"
    and "\<forall>job\<in>set (db_texts (store sys)). t_status job = ''pending''
            \<or> t_status job = ''completed'' \<and> orchestrations sys (t_id job) = Some Finalized"
    and "\<forall>t\<in>set (db_translations (store sys)). orchestrations sys (tr_text_id t) = Some Finalized
              \<longrightarrow> workers sys (tr_id t) = Some Succeeded"
    and "\<forall>t\<in>set (db_translations (store sys)). \<forall>tasks.
            orchestrations sys (tr_text_id t) = Some (Waiting tasks) \<longrightarrow> tr_id t \<in> set tasks"
    and "\<forall>t\<in>set (db_translations (store sys)).
            workers sys (tr_id t) = Some Succeeded \<longrightarrow> tr_status t = ''complete''"
    and "\<forall>t\<in>set (db_translations (store sys)).
            workers sys (tr_id t) \<noteq> None \<longrightarrow> orchestrations sys (tr_text_id t) \<noteq> Some Scheduled"
    and "\<forall>t\<in>set (db_translations (store sys)). tr_text_id t < db_texts_seq (store sys)"
  shows "orchestration_invariant sys"
  using assms unfolding orchestration_invariant_def by blast

lemma set_update_first:
  "x' \<in> set (update_first p f xs) \<Longrightarrow> x' \<in> set xs \<or> (\<exists>x\<in>set xs. p x \<and> x' = f x)"
  by (induction xs) (auto split: if_splits)

lemma update_first_distinct:
  "distinct (map g xs) \<Longrightarrow> (\<And>x. g (f x) = g x) \<Longrightarrow>
   update_first (\<lambda>x. g x = i) f xs = map (\<lambda>x. if g x = i then f x else x) xs"
proof (induction xs)
  case Nil
  then show ?case by simp
next
  case (Cons x xs)
  show ?case
  proof (cases "g x = i")
    case True
    from Cons.prems(1) have "g x \<notin> g ` set xs" by simp
    with True have "\<forall>y\<in>set xs. g y \<noteq> i" by (metis image_eqI)
    then have "map (\<lambda>x. if g x = i then f x else x) xs = xs"
      by (simp add: map_idI)
    with True show ?thesis by simp
  next
    case False
    with Cons show ?thesis by simp
  qed
qed

lemma map_fst_enumerate_fun:
  "map (\<lambda>x. F (fst x)) (enumerate n xs) = map F [n..<n + length xs]"
proof -
  have "map (\<lambda>x. F (fst x)) (enumerate n xs) = map F (map fst (enumerate n xs))"
    by (simp only: map_map comp_def)
  also have "\<dots> = map F [n..<n + length xs]"
    by (simp only: map_fst_enumerate)
  finally show ?thesis .
qed

lemma invariant_submit:
  assumes inv: "orchestration_invariant sys"
  shows "orchestration_invariant (snd (translate_endpoint sys languages text))"
proof -
  let ?db = "store sys"
  let ?new = "map (\<lambda>(i, language).
                \<lparr>tr_id = db_translations_seq ?db + int i, tr_text_id = db_texts_seq ?db,
                 tr_status = ''pending'', tr_language = language,
                 tr_translated_content = None\<rparr>)
             (enumerate 0 languages)"
  have ids: "map tr_id ?new = map (\<lambda>i. db_translations_seq ?db + int i) [0..<length languages]"
    using map_fst_enumerate_fun [of "\<lambda>i. db_translations_seq ?db + int i" 0 languages]
    by (simp add: case_prod_beta comp_def)
  have new: "tr_text_id t = db_texts_seq ?db \<and> db_translations_seq ?db \<le> tr_id t
               \<and> tr_id t < db_translations_seq ?db + int (length languages)"
    if "t \<in> set ?new" for t
    using that by (auto simp: in_set_enumerate_eq)
  have d: "distinct (map tr_id ?new)"
    unfolding ids by (simp add: distinct_map inj_on_def)
  let ?sys' = "snd (translate_endpoint sys languages text)"
  have st: "store ?sys' = \<lparr>db_texts = db_texts ?db @ [\<lparr>t_id = db_texts_seq ?db, t_text = text, t_status = ''pending''\<rparr>],
       db_translations = db_translations ?db @ ?new,
       db_texts_seq = db_texts_seq ?db + 1,
       db_translations_seq = db_translations_seq ?db + int (length languages)\<rparr>"
    and orc: "orchestrations ?sys' = (orchestrations sys)(db_texts_seq ?db \<mapsto> Scheduled)"
    and wk: "workers ?sys' = workers sys"
    by (simp_all add: translate_endpoint_def create_translation_task_eq)
  note i0 = invariantD(1) [OF inv] and i1 = invariantD(2) [OF inv] and i2 = invariantD(3) [OF inv]
    and i3 = invariantD(4) [OF inv] and i4 = invariantD(5) [OF inv] and i5 = invariantD(6) [OF inv]
    and i6 = invariantD(7) [OF inv] and i7 = invariantD(8) [OF inv] and i8 = invariantD(9) [OF inv]
    and i9 = invariantD(10) [OF inv]
  have c0: "\<forall>job\<in>set (db_texts (store ?sys')). t_id job < db_texts_seq (store ?sys')"
    using i0 by (auto simp: st)
  have c1: "distinct (map tr_id (db_translations (store ?sys')))"
    using i1 i2 d new by (fastforce simp: st)
  have c2: "\<forall>t\<in>set (db_translations (store ?sys')). tr_id t < db_translations_seq (store ?sys')"
    using i2 new by (fastforce simp: st)
  have c3: "\<forall>i. workers ?sys' i \<noteq> None \<longrightarrow> i < db_translations_seq (store ?sys')"
    using i3 by (fastforce simp: st wk)
  have c4: "\<forall>job\<in>set (db_texts (store ?sys')). t_status job = ''pending''
            \<or> t_status job = ''completed'' \<and> orchestrations ?sys' (t_id job) = Some Finalized"
    using i4 i0 by (fastforce simp: st orc)
  have c5: "\<forall>t\<in>set (db_translations (store ?sys')). orchestrations ?sys' (tr_text_id t) = Some Finalized
              \<longrightarrow> workers ?sys' (tr_id t) = Some Succeeded"
    using i5 new by (auto simp: st orc wk split: if_splits)
  have c6: "\<forall>t\<in>set (db_translations (store ?sys')). \<forall>tasks.
            orchestrations ?sys' (tr_text_id t) = Some (Waiting tasks) \<longrightarrow> tr_id t \<in> set tasks"
    using i6 new by (auto simp: st orc wk split: if_splits)
  have c7: "\<forall>t\<in>set (db_translations (store ?sys')). workers ?sys' (tr_id t) = Some Succeeded \<longrightarrow> tr_status t = ''complete''"
  proof
    fix t assume t: "t \<in> set (db_translations (store ?sys'))"
    show "workers ?sys' (tr_id t) = Some Succeeded \<longrightarrow> tr_status t = ''complete''"
    proof
      assume w: "workers ?sys' (tr_id t) = Some Succeeded"
      with i3 have "tr_id t < db_translations_seq ?db" by (simp add: wk)
      with t new have "t \<in> set (db_translations ?db)" by (fastforce simp: st)
      with i7 w show "tr_status t = ''complete''" by (simp add: wk)
    qed
  qed
  have c8: "\<forall>t\<in>set (db_translations (store ?sys')).
            workers ?sys' (tr_id t) \<noteq> None \<longrightarrow> orchestrations ?sys' (tr_text_id t) \<noteq> Some Scheduled"
    proof
    fix t assume t: "t \<in> set (db_translations (store ?sys'))"
    show "workers ?sys' (tr_id t) \<noteq> None \<longrightarrow> orchestrations ?sys' (tr_text_id t) \<noteq> Some Scheduled"
    proof
      assume w: "workers ?sys' (tr_id t) \<noteq> None"
      with i3 have "tr_id t < db_translations_seq ?db" by (simp add: wk)
      with t new have old: "t \<in> set (db_translations ?db)" by (fastforce simp: st)
      with i9 have "tr_text_id t \<noteq> db_texts_seq ?db" by auto
      with i8 old w show "orchestrations ?sys' (tr_text_id t) \<noteq> Some Scheduled"
        by (simp add: orc wk)
    qed
  qed
  have c9: "\<forall>t\<in>set (db_translations (store ?sys')). tr_text_id t < db_texts_seq (store ?sys')"
    using i9 new by (fastforce simp: st)
  from c0 c1 c2 c3 c4 c5 c6 c7 c8 c9 show ?thesis by (rule invariantI)
qed

lemma invariant_dispatch:
  assumes inv: "orchestration_invariant sys"
    and sch: "orchestrations sys text_id = Some Scheduled"
  shows "orchestration_invariant (process_translation sys text_id)"
proof -
  let ?db = "store sys"
  let ?tasks = "map tr_id (get_translations_for_text ?db text_id)"
  let ?sys' = "process_translation sys text_id"
  note i0 = invariantD(1) [OF inv] and i1 = invariantD(2) [OF inv] and i2 = invariantD(3) [OF inv]
    and i3 = invariantD(4) [OF inv] and i4 = invariantD(5) [OF inv] and i5 = invariantD(6) [OF inv]
    and i6 = invariantD(7) [OF inv] and i7 = invariantD(8) [OF inv] and i8 = invariantD(9) [OF inv]
    and i9 = invariantD(10) [OF inv]
  have st: "store ?sys' = ?db"
    and orc: "orchestrations ?sys' = (orchestrations sys)(text_id \<mapsto> Waiting ?tasks)"
    and wk: "workers ?sys' = (\<lambda>i. if i \<in> set ?tasks then Some Running else workers sys i)"
    by (simp_all add: process_translation_def Let_def)
  have mem: "tr_id t \<in> set ?tasks \<longleftrightarrow> tr_text_id t = text_id"
    if "t \<in> set (db_translations ?db)" for t
  proof
    assume "tr_id t \<in> set ?tasks"
    then obtain u where u: "u \<in> set (db_translations ?db)" "tr_text_id u = text_id" "tr_id u = tr_id t"
      by (auto simp: get_translations_for_text_def)
    with i1 that have "u = t" by (simp add: distinct_map inj_on_def)
    with u show "tr_text_id t = text_id" by simp
  next
    assume "tr_text_id t = text_id"
    with that show "tr_id t \<in> set ?tasks" by (auto simp: get_translations_for_text_def)
  qed
  have c0: "\<forall>job\<in>set (db_texts (store ?sys')). t_id job < db_texts_seq (store ?sys')"
    using i0 by (simp add: st)
  have c1: "distinct (map tr_id (db_translations (store ?sys')))"
    using i1 by (simp add: st)
  have c2: "\<forall>t\<in>set (db_translations (store ?sys')). tr_id t < db_translations_seq (store ?sys')"
    using i2 by (simp add: st)
  have c3: "\<forall>i. workers ?sys' i \<noteq> None \<longrightarrow> i < db_translations_seq (store ?sys')"
    using i3 i2 by (auto simp: st wk get_translations_for_text_def split: if_splits)
  have c4: "\<forall>job\<in>set (db_texts (store ?sys')). t_status job = ''pending''
            \<or> t_status job = ''completed'' \<and> orchestrations ?sys' (t_id job) = Some Finalized"
    using i4 sch by (fastforce simp: st orc)
  have c5: "\<forall>t\<in>set (db_translations (store ?sys')). orchestrations ?sys' (tr_text_id t) = Some Finalized
              \<longrightarrow> workers ?sys' (tr_id t) = Some Succeeded"
    using i5 mem by (auto simp: st orc wk split: if_splits)
  have c6: "\<forall>t\<in>set (db_translations (store ?sys')). \<forall>tasks.
            orchestrations ?sys' (tr_text_id t) = Some (Waiting tasks) \<longrightarrow> tr_id t \<in> set tasks"
    using i6 mem by (auto simp: st orc split: if_splits)
  have c7: "\<forall>t\<in>set (db_translations (store ?sys')). workers ?sys' (tr_id t) = Some Succeeded \<longrightarrow> tr_status t = ''complete''"
    using i7 by (auto simp: st wk split: if_splits)
  have c8: "\<forall>t\<in>set (db_translations (store ?sys')).
            workers ?sys' (tr_id t) \<noteq> None \<longrightarrow> orchestrations ?sys' (tr_text_id t) \<noteq> Some Scheduled"
    using i8 mem by (auto simp: st orc wk split: if_splits)
  have c9: "\<forall>t\<in>set (db_translations (store ?sys')). tr_text_id t < db_texts_seq (store ?sys')"
    using i9 by (simp add: st)
  from c0 c1 c2 c3 c4 c5 c6 c7 c8 c9 show ?thesis by (rule invariantI)
qed

lemma invariant_worker_returns:
  assumes inv: "orchestration_invariant sys"
    and run: "workers sys translation_id = Some Running"
    and db': "db' = update_translation_fields (store sys) translation_id ''complete'' content"
  shows "orchestration_invariant
           (sys\<lparr>store := db', workers := (workers sys)(translation_id \<mapsto> Succeeded)\<rparr>)"
proof -
  let ?db = "store sys"
  let ?sys' = "sys\<lparr>store := db', workers := (workers sys)(translation_id \<mapsto> Succeeded)\<rparr>"
  let ?f = "\<lambda>t. if tr_id t = translation_id
                 then t\<lparr>tr_status := ''complete'', tr_translated_content := Some content\<rparr> else t"
  note i0 = invariantD(1) [OF inv] and i1 = invariantD(2) [OF inv] and i2 = invariantD(3) [OF inv]
    and i3 = invariantD(4) [OF inv] and i4 = invariantD(5) [OF inv] and i5 = invariantD(6) [OF inv]
    and i6 = invariantD(7) [OF inv] and i7 = invariantD(8) [OF inv] and i8 = invariantD(9) [OF inv]
    and i9 = invariantD(10) [OF inv]
  have tr: "db_translations db' = map ?f (db_translations ?db)"
    unfolding db' update_translation_fields_def
    using update_first_distinct [OF i1, of "\<lambda>t. t\<lparr>tr_status := ''complete'', tr_translated_content := Some content\<rparr>" translation_id]
    by simp
  have tx: "db_texts db' = db_texts ?db" "db_texts_seq db' = db_texts_seq ?db"
    "db_translations_seq db' = db_translations_seq ?db"
    by (simp_all add: db' update_translation_fields_def)
  have ids: "map tr_id (db_translations db') = map tr_id (db_translations ?db)"
    by (simp add: tr comp_def)
  have c0: "\<forall>job\<in>set (db_texts (store ?sys')). t_id job < db_texts_seq (store ?sys')"
    using i0 by (simp add: tx)
  have c1: "distinct (map tr_id (db_translations (store ?sys')))"
    using i1 by (simp add: ids)
  have c2: "\<forall>t\<in>set (db_translations (store ?sys')). tr_id t < db_translations_seq (store ?sys')"
    using i2 by (auto simp: tr tx)
  have c3: "\<forall>i. workers ?sys' i \<noteq> None \<longrightarrow> i < db_translations_seq (store ?sys')"
    using i3 run by (auto simp: tx)
  have c4: "\<forall>job\<in>set (db_texts (store ?sys')). t_status job = ''pending''
            \<or> t_status job = ''completed'' \<and> orchestrations ?sys' (t_id job) = Some Finalized"
    using i4 by (simp add: tx)
  have c5: "\<forall>t\<in>set (db_translations (store ?sys')). orchestrations ?sys' (tr_text_id t) = Some Finalized
              \<longrightarrow> workers ?sys' (tr_id t) = Some Succeeded"
    using i5 by (auto simp: tr)
  have c6: "\<forall>t\<in>set (db_translations (store ?sys')). \<forall>tasks.
            orchestrations ?sys' (tr_text_id t) = Some (Waiting tasks) \<longrightarrow> tr_id t \<in> set tasks"
    using i6 by (auto simp: tr)
  have c7: "\<forall>t\<in>set (db_translations (store ?sys')). workers ?sys' (tr_id t) = Some Succeeded \<longrightarrow> tr_status t = ''complete''"
    using i7 by (auto simp: tr)
  have c8: "\<forall>t\<in>set (db_translations (store ?sys')).
            workers ?sys' (tr_id t) \<noteq> None \<longrightarrow> orchestrations ?sys' (tr_text_id t) \<noteq> Some Scheduled"
    using i8 run by (auto simp: tr)
  have c9: "\<forall>t\<in>set (db_translations (store ?sys')). tr_text_id t < db_texts_seq (store ?sys')"
    using i9 by (auto simp: tr tx)
  from c0 c1 c2 c3 c4 c5 c6 c7 c8 c9 show ?thesis by (rule invariantI)
qed

lemma invariant_worker_raises:
  assumes inv: "orchestration_invariant sys"
    and run: "workers sys translation_id = Some Running"
  shows "orchestration_invariant (sys\<lparr>workers := (workers sys)(translation_id \<mapsto> Failed e)\<rparr>)"
proof -
  let ?sys' = "sys\<lparr>workers := (workers sys)(translation_id \<mapsto> Failed e)\<rparr>"
  note i0 = invariantD(1) [OF inv] and i1 = invariantD(2) [OF inv] and i2 = invariantD(3) [OF inv]
    and i3 = invariantD(4) [OF inv] and i4 = invariantD(5) [OF inv] and i5 = invariantD(6) [OF inv]
    and i6 = invariantD(7) [OF inv] and i7 = invariantD(8) [OF inv] and i8 = invariantD(9) [OF inv]
    and i9 = invariantD(10) [OF inv]
  have c0: "\<forall>job\<in>set (db_texts (store ?sys')). t_id job < db_texts_seq (store ?sys')"
    using i0 by simp
  have c1: "distinct (map tr_id (db_translations (store ?sys')))"
    using i1 by simp
  have c2: "\<forall>t\<in>set (db_translations (store ?sys')). tr_id t < db_translations_seq (store ?sys')"
    using i2 by simp
  have c3: "\<forall>i. workers ?sys' i \<noteq> None \<longrightarrow> i < db_translations_seq (store ?sys')"
    using i3 run by auto
  have c4: "\<forall>job\<in>set (db_texts (store ?sys')). t_status job = ''pending''
            \<or> t_status job = ''completed'' \<and> orchestrations ?sys' (t_id job) = Some Finalized"
    using i4 by simp
  have c5: "\<forall>t\<in>set (db_translations (store ?sys')). orchestrations ?sys' (tr_text_id t) = Some Finalized
              \<longrightarrow> workers ?sys' (tr_id t) = Some Succeeded"
    using i5 run by auto
  have c6: "\<forall>t\<in>set (db_translations (store ?sys')). \<forall>tasks.
            orchestrations ?sys' (tr_text_id t) = Some (Waiting tasks) \<longrightarrow> tr_id t \<in> set tasks"
    using i6 by simp
  have c7: "\<forall>t\<in>set (db_translations (store ?sys')). workers ?sys' (tr_id t) = Some Succeeded \<longrightarrow> tr_status t = ''complete''"
    using i7 by auto
  have c8: "\<forall>t\<in>set (db_translations (store ?sys')).
            workers ?sys' (tr_id t) \<noteq> None \<longrightarrow> orchestrations ?sys' (tr_text_id t) \<noteq> Some Scheduled"
    using i8 run by auto
  have c9: "\<forall>t\<in>set (db_translations (store ?sys')). tr_text_id t < db_texts_seq (store ?sys')"
    using i9 by simp
  from c0 c1 c2 c3 c4 c5 c6 c7 c8 c9 show ?thesis by (rule invariantI)
qed

lemma invariant_finalize:
  assumes inv: "orchestration_invariant sys"
    and wait: "orchestrations sys text_id = Some (Waiting tasks)"
    and ok: "list_all (\<lambda>i. workers sys i = Some Succeeded) tasks"
  shows "orchestration_invariant (update_task_status sys text_id)"
proof -
  let ?db = "store sys"
  let ?sys' = "update_task_status sys text_id"
  note i0 = invariantD(1) [OF inv] and i1 = invariantD(2) [OF inv] and i2 = invariantD(3) [OF inv]
    and i3 = invariantD(4) [OF inv] and i4 = invariantD(5) [OF inv] and i5 = invariantD(6) [OF inv]
    and i6 = invariantD(7) [OF inv] and i7 = invariantD(8) [OF inv] and i8 = invariantD(9) [OF inv]
    and i9 = invariantD(10) [OF inv]
  have tx: "db_texts (store ?sys')
              = update_first (\<lambda>job. t_id job = text_id) (\<lambda>job. job\<lparr>t_status := ''completed''\<rparr>) (db_texts ?db)"
    and tr: "db_translations (store ?sys') = db_translations ?db"
    and sq: "db_texts_seq (store ?sys') = db_texts_seq ?db"
      "db_translations_seq (store ?sys') = db_translations_seq ?db"
    and orc: "orchestrations ?sys' = (orchestrations sys)(text_id \<mapsto> Finalized)"
    and wk: "workers ?sys' = workers sys"
    by (simp_all add: update_task_status_def update_text_status_def)
  have el: "job \<in> set (db_texts ?db)
              \<or> (\<exists>old\<in>set (db_texts ?db). t_id old = text_id \<and> job = old\<lparr>t_status := ''completed''\<rparr>)"
    if "job \<in> set (db_texts (store ?sys'))" for job
    using set_update_first [OF that [unfolded tx]] .
  have c0: "\<forall>job\<in>set (db_texts (store ?sys')). t_id job < db_texts_seq (store ?sys')"
    using i0 el by (fastforce simp: sq)
  have c1: "distinct (map tr_id (db_translations (store ?sys')))"
    using i1 by (simp add: tr)
  have c2: "\<forall>t\<in>set (db_translations (store ?sys')). tr_id t < db_translations_seq (store ?sys')"
    using i2 by (simp add: tr sq)
  have c3: "\<forall>i. workers ?sys' i \<noteq> None \<longrightarrow> i < db_translations_seq (store ?sys')"
    using i3 by (simp add: wk sq)
  have c4: "\<forall>job\<in>set (db_texts (store ?sys')). t_status job = ''pending''
            \<or> t_status job = ''completed'' \<and> orchestrations ?sys' (t_id job) = Some Finalized"
  proof
    fix job assume "job \<in> set (db_texts (store ?sys'))"
    from el [OF this] i4
    show "t_status job = ''pending''
            \<or> t_status job = ''completed'' \<and> orchestrations ?sys' (t_id job) = Some Finalized"
      by (auto simp: orc)
  qed
  have c5: "\<forall>t\<in>set (db_translations (store ?sys')). orchestrations ?sys' (tr_text_id t) = Some Finalized
              \<longrightarrow> workers ?sys' (tr_id t) = Some Succeeded"
    using i5 i6 wait ok by (auto simp: tr orc wk list_all_iff split: if_splits)
  have c6: "\<forall>t\<in>set (db_translations (store ?sys')). \<forall>tasks.
            orchestrations ?sys' (tr_text_id t) = Some (Waiting tasks) \<longrightarrow> tr_id t \<in> set tasks"
    using i6 by (auto simp: tr orc split: if_splits)
  have c7: "\<forall>t\<in>set (db_translations (store ?sys')). workers ?sys' (tr_id t) = Some Succeeded \<longrightarrow> tr_status t = ''complete''"
    using i7 by (simp add: tr wk)
  have c8: "\<forall>t\<in>set (db_translations (store ?sys')).
            workers ?sys' (tr_id t) \<noteq> None \<longrightarrow> orchestrations ?sys' (tr_text_id t) \<noteq> Some Scheduled"
    using i8 by (auto simp: tr orc wk)
  have c9: "\<forall>t\<in>set (db_translations (store ?sys')). tr_text_id t < db_texts_seq (store ?sys')"
    using i9 by (simp add: tr sq)
  from c0 c1 c2 c3 c4 c5 c6 c7 c8 c9 show ?thesis by (rule invariantI)
qed

lemma invariant_abort:
  assumes inv: "orchestration_invariant sys"
    and wait: "orchestrations sys text_id = Some (Waiting tasks)"
  shows "orchestration_invariant (sys\<lparr>orchestrations := (orchestrations sys)(text_id \<mapsto> Aborted)\<rparr>)"
proof -
  let ?sys' = "sys\<lparr>orchestrations := (orchestrations sys)(text_id \<mapsto> Aborted)\<rparr>"
  note i0 = invariantD(1) [OF inv] and i1 = invariantD(2) [OF inv] and i2 = invariantD(3) [OF inv]
    and i3 = invariantD(4) [OF inv] and i4 = invariantD(5) [OF inv] and i5 = invariantD(6) [OF inv]
    and i6 = invariantD(7) [OF inv] and i7 = invariantD(8) [OF inv] and i8 = invariantD(9) [OF inv]
    and i9 = invariantD(10) [OF inv]
  have c0: "\<forall>job\<in>set (db_texts (store ?sys')). t_id job < db_texts_seq (store ?sys')"
    using i0 by simp
  have c1: "distinct (map tr_id (db_translations (store ?sys')))"
    using i1 by simp
  have c2: "\<forall>t\<in>set (db_translations (store ?sys')). tr_id t < db_translations_seq (store ?sys')"
    using i2 by simp
  have c3: "\<forall>i. workers ?sys' i \<noteq> None \<longrightarrow> i < db_translations_seq (store ?sys')"
    using i3 by simp
  have c4: "\<forall>job\<in>set (db_texts (store ?sys')). t_status job = ''pending''
            \<or> t_status job = ''completed'' \<and> orchestrations ?sys' (t_id job) = Some Finalized"
    using i4 wait by auto
  have c5: "\<forall>t\<in>set (db_translations (store ?sys')). orchestrations ?sys' (tr_text_id t) = Some Finalized
              \<longrightarrow> workers ?sys' (tr_id t) = Some Succeeded"
    using i5 by auto
  have c6: "\<forall>t\<in>set (db_translations (store ?sys')). \<forall>tasks.
            orchestrations ?sys' (tr_text_id t) = Some (Waiting tasks) \<longrightarrow> tr_id t \<in> set tasks"
    using i6 by auto
  have c7: "\<forall>t\<in>set (db_translations (store ?sys')). workers ?sys' (tr_id t) = Some Succeeded \<longrightarrow> tr_status t = ''complete''"
    using i7 by simp
  have c8: "\<forall>t\<in>set (db_translations (store ?sys')).
            workers ?sys' (tr_id t) \<noteq> None \<longrightarrow> orchestrations ?sys' (tr_text_id t) \<noteq> Some Scheduled"
    using i8 by auto
  have c9: "\<forall>t\<in>set (db_translations (store ?sys')). tr_text_id t < db_texts_seq (store ?sys')"
    using i9 by simp
  from c0 c1 c2 c3 c4 c5 c6 c7 c8 c9 show ?thesis by (rule invariantI)
qed

lemma step_invariant:
  assumes inv: "orchestration_invariant sys" and st: "step nlp a sys = Some sys'"
  shows "orchestration_invariant sys'"
proof (cases a)
  case (Submit source languages)
  with st inv show ?thesis by (auto intro: invariant_submit)
next
  case (Dispatch text_id)
  with st inv show ?thesis
    by (auto split: option.splits phase.splits intro: invariant_dispatch)
next
  case (Work translation_id openai order)
  with st have run: "workers sys translation_id = Some Running"
    by (auto split: option.splits worker_state.splits)
  show ?thesis
  proof (cases "process_individual_translation nlp openai order (store sys) translation_id")
    case (Returns db')
    from worker_Returns [OF this] obtain content where
      "db' = update_translation_fields (store sys) translation_id ''complete'' content"
      by blast
    from invariant_worker_returns [OF inv run this] st Work run Returns show ?thesis by simp
  next
    case (Raises e)
    with invariant_worker_raises [OF inv run, of e] st Work run show ?thesis by simp
  next
    case Blocks
    with st Work run show ?thesis by simp
  qed
next
  case (WorkAsync translation_id openai order)
  with st have run: "workers sys translation_id = Some Running"
    by (auto split: option.splits worker_state.splits)
  show ?thesis
  proof (cases "process_individual_translation_async nlp openai order (store sys) translation_id")
    case (Returns db')
    from worker_async_Returns [OF this] obtain content where
      "db' = update_translation_fields (store sys) translation_id ''complete'' content"
      by blast
    from invariant_worker_returns [OF inv run this] st WorkAsync run Returns show ?thesis by simp
  next
    case (Raises e)
    with invariant_worker_raises [OF inv run, of e] st WorkAsync run show ?thesis by simp
  next
    case Blocks
    with st WorkAsync run show ?thesis by simp
  qed
next
  case (Finalize text_id)
  with st inv show ?thesis
    by (auto split: option.splits phase.splits if_splits intro: invariant_finalize)
next
  case (Abort text_id)
  with st inv show ?thesis
    by (auto split: option.splits phase.splits if_splits intro: invariant_abort)
qed

lemma run_invariant:
  "orchestration_invariant sys \<Longrightarrow> run nlp actions sys = Some sys' \<Longrightarrow> orchestration_invariant sys'"
proof (induction actions arbitrary: sys)
  case Nil
  then show ?case by simp
next
  case (Cons a actions)
  then show ?case by (auto split: option.splits dest: step_invariant)
qed

lemma is_failed_iff: "is_failed w \<longleftrightarrow> (\<exists>e. w = Some (Failed e))"
  by (cases w rule: is_failed.cases) auto

lemma failed_pending:
  assumes inv: "orchestration_invariant sys"
    and t: "t \<in> set (db_translations (store sys))" and f: "is_failed (workers sys (tr_id t))"
    and job: "job \<in> set (db_texts (store sys))" "t_id job = tr_text_id t"
  shows "t_status job = ''pending''"
proof (rule ccontr)
  assume "t_status job \<noteq> ''pending''"
  with invariantD(5) [OF inv] job have "orchestrations sys (tr_text_id t) = Some Finalized" by auto
  with invariantD(6) [OF inv] t have "workers sys (tr_id t) = Some Succeeded" by simp
  with f show False by simp
qed

lemma succeeded_complete:
  assumes inv: "orchestration_invariant sys"
    and job: "job \<in> set (db_texts (store sys))" "t_status job = ''completed''"
    and t: "t \<in> set (db_translations (store sys))" "tr_text_id t = t_id job"
  shows "workers sys (tr_id t) = Some Succeeded \<and> tr_status t = ''complete''"
proof -
  from invariantD(5) [OF inv] job have "orchestrations sys (t_id job) = Some Finalized" by auto
  with invariantD(6) [OF inv] t have "workers sys (tr_id t) = Some Succeeded" by simp
  with invariantD(8) [OF inv] t show ?thesis by simp
qed

lemma failed_stable:
  assumes inv: "orchestration_invariant sys"
    and t: "t \<in> set (db_translations (store sys))" and f: "is_failed (workers sys (tr_id t))"
    and st: "step nlp a sys = Some sys'"
  shows "is_failed (workers sys' (tr_id t))
         \<and> (\<exists>t'\<in>set (db_translations (store sys')). tr_id t' = tr_id t \<and> tr_text_id t' = tr_text_id t)"
proof (cases a)
  case (Submit source languages)
  with st t f show ?thesis
    by (auto simp: translate_endpoint_def create_translation_task_eq)
next
  case (Dispatch text_id)
  with st have sch: "orchestrations sys text_id = Some Scheduled"
    and sys': "sys' = process_translation sys text_id"
    by (auto split: option.splits phase.splits)
  from f have "workers sys (tr_id t) \<noteq> None" by (auto simp: is_failed_iff)
  with invariantD(9) [OF inv] t sch have ne: "tr_text_id t \<noteq> text_id" by auto
  have "tr_id t \<notin> set (map tr_id (get_translations_for_text (store sys) text_id))"
  proof
    assume "tr_id t \<in> set (map tr_id (get_translations_for_text (store sys) text_id))"
    then obtain u where u: "u \<in> set (db_translations (store sys))" "tr_text_id u = text_id" "tr_id u = tr_id t"
      by (auto simp: get_translations_for_text_def)
    with invariantD(2) [OF inv] t have "u = t" by (simp add: distinct_map inj_on_def)
    with u ne show False by simp
  qed
  with t f show ?thesis by (auto simp: sys' process_translation_def Let_def)
next
  case (Work translation_id openai order)
  with st have run: "workers sys translation_id = Some Running"
    by (auto split: option.splits worker_state.splits)
  with f have ne: "tr_id t \<noteq> translation_id" by auto
  show ?thesis
  proof (cases "process_individual_translation nlp openai order (store sys) translation_id")
    case (Returns db')
    from worker_Returns [OF this] obtain content where
      db': "db' = update_translation_fields (store sys) translation_id ''complete'' content"
      by blast
    have "db_translations db' = map (\<lambda>t. if tr_id t = translation_id
             then t\<lparr>tr_status := ''complete'', tr_translated_content := Some content\<rparr> else t)
           (db_translations (store sys))"
      unfolding db' update_translation_fields_def
      using update_first_distinct [OF invariantD(2) [OF inv],
          of "\<lambda>t. t\<lparr>tr_status := ''complete'', tr_translated_content := Some content\<rparr>" translation_id]
      by simp
    with t ne have "t \<in> set (db_translations db')" by force
    with st Work run Returns f ne show ?thesis by auto
  next
    case (Raises e)
    with st Work run f ne t show ?thesis by auto
  next
    case Blocks
    with st Work run show ?thesis by simp
  qed
next
  case (WorkAsync translation_id openai order)
  with st have run: "workers sys translation_id = Some Running"
    by (auto split: option.splits worker_state.splits)
  with f have ne: "tr_id t \<noteq> translation_id" by auto
  show ?thesis
  proof (cases "process_individual_translation_async nlp openai order (store sys) translation_id")
    case (Returns db')
    from worker_async_Returns [OF this] obtain content where
      db': "db' = update_translation_fields (store sys) translation_id ''complete'' content"
      by blast
    have "db_translations db' = map (\<lambda>t. if tr_id t = translation_id
             then t\<lparr>tr_status := ''complete'', tr_translated_content := Some content\<rparr> else t)
           (db_translations (store sys))"
      unfolding db' update_translation_fields_def
      using update_first_distinct [OF invariantD(2) [OF inv],
          of "\<lambda>t. t\<lparr>tr_status := ''complete'', tr_translated_content := Some content\<rparr>" translation_id]
      by simp
    with t ne have "t \<in> set (db_translations db')" by force
    with st WorkAsync run Returns f ne show ?thesis by auto
  next
    case (Raises e)
    with st WorkAsync run f ne t show ?thesis by auto
  next
    case Blocks
    with st WorkAsync run show ?thesis by simp
  qed
next
  case (Finalize text_id)
  with st t f show ?thesis
    by (auto simp: update_task_status_def update_text_status_def
          split: option.splits phase.splits if_splits)
next
  case (Abort text_id)
  with st t f show ?thesis
    by (auto split: option.splits phase.splits if_splits)
qed

lemma failed_stable_run:
  "orchestration_invariant sys \<Longrightarrow> t \<in> set (db_translations (store sys)) \<Longrightarrow>
   is_failed (workers sys (tr_id t)) \<Longrightarrow> run nlp actions sys = Some sys' \<Longrightarrow>
   is_failed (workers sys' (tr_id t))
   \<and> (\<exists>t'\<in>set (db_translations (store sys')). tr_id t' = tr_id t \<and> tr_text_id t' = tr_text_id t)"
proof (induction actions arbitrary: sys t)
  case Nil
  then show ?case by auto
next
  case (Cons a actions)
  from Cons.prems(4) obtain mid where a: "step nlp a sys = Some mid"
    and r: "run nlp actions mid = Some sys'"
    by (auto split: option.splits)
  from failed_stable [OF Cons.prems(1-3) a] obtain u where
    u: "u \<in> set (db_translations (store mid))" "tr_id u = tr_id t" "tr_text_id u = tr_text_id t"
    and f: "is_failed (workers mid (tr_id t))"
    by blast
  from step_invariant [OF Cons.prems(1) a] have inv: "orchestration_invariant mid" .
  from Cons.IH [OF inv u(1) _ r] f u show ?case by simp
qed

lemma finalize_writes:
  assumes "orchestrations sys text_id = Some (Waiting tasks)"
    and "list_all (\<lambda>i. workers sys i = Some Succeeded) tasks"
    and "get_text (store sys) text_id = Some job"
  shows "\<exists>sys'. step nlp (Finalize text_id) sys = Some sys'
           \<and> get_text (store sys') text_id = Some (job\<lparr>t_status := ''completed''\<rparr>)"
proof -
  from assms(3) have "t_id job = text_id" by (auto simp: get_text_def find_Some_iff)
  with assms(3) find_update_first [of "\<lambda>job. t_id job = text_id" "db_texts (store sys)" job
      "\<lambda>job. job\<lparr>t_status := ''completed''\<rparr>"]
  have "get_text (store (update_task_status sys text_id)) text_id = Some (job\<lparr>t_status := ''completed''\<rparr>)"
    by (simp add: get_text_def update_task_status_def update_text_status_def)
  with assms(1,2) show ?thesis by simp
qed

lemma finalize_refused:
  assumes "orchestrations sys text_id = Some (Waiting tasks)"
    and "list_ex (\<lambda>i. is_failed (workers sys i)) tasks"
  shows "step nlp (Finalize text_id) sys = None"
proof -
  from assms(2) obtain i where i: "i \<in> set tasks" "is_failed (workers sys i)"
    by (auto simp: list_ex_iff)
  then have "workers sys i \<noteq> Some Succeeded" by (auto simp: is_failed_iff)
  with i(1) have "\<not> list_all (\<lambda>i. workers sys i = Some Succeeded) tasks"
    unfolding list_all_iff by blast
  with assms(1) show ?thesis by simp
qed

text \<open>
  C4 (fan-in completeness). In every state that a run reaches from the initial state,
  whatever the actions and their order, a job whose status is \<^verbatim>\<open>completed\<close> has no
  pending Sub-job: each of its Sub-jobs is \<^verbatim>\<open>complete\<close> and the worker started for it
  has finished, with success. So \<^verbatim>\<open>completed\<close> is written only after every worker
  that was started for the job has finished.
\<close>

theorem fan_in_completeness:
  "run nlp actions initial_system = Some sys \<Longrightarrow>
   \<forall>job\<in>set (db_texts (store sys)). t_status job = ''completed'' \<longrightarrow>
     (\<forall>t\<in>set (db_translations (store sys)). tr_text_id t = t_id job \<longrightarrow>
        tr_status t \<noteq> ''pending'' \<and> tr_status t = ''complete''
        \<and> workers sys (tr_id t) = Some Succeeded)"
proof -
  assume "run nlp actions initial_system = Some sys"
  with invariant_initial have "orchestration_invariant sys" by (rule run_invariant)
  from succeeded_complete [OF this] show ?thesis by auto
qed

text \<open>
  The theorem at a run of the job of the text \<^verbatim>\<open>A. B.\<close> for the languages
  \<^verbatim>\<open>es\<close> and \<^verbatim>\<open>fr\<close>, in which the worker of the second Sub-job finishes first:
  the job is completed and both Sub-jobs are complete. The finalization cannot be taken
  while the worker of the first Sub-job has not finished.
\<close>

theorem fan_in_completeness_witness:
  "map_option (\<lambda>sys. (map t_status (db_texts (store sys)),
                      map tr_text_id (db_translations (store sys)),
                      map tr_status (db_translations (store sys)),
                      workers sys 1, workers sys 2))
     (run (\<lambda>t. [t])
        [Submit ''A. B.'' [''es'', ''fr''], Dispatch 1,
         Work 2 (\<lambda>s u. Inr (s @ '': '' @ u)) [0],
         Work 1 (\<lambda>s u. Inr (s @ '': '' @ u)) [0], Finalize 1]
        initial_system)
   = Some ([''completed''], [1, 1], [''complete'', ''complete''], Some Succeeded, Some Succeeded)
   \<and> Option.is_none
       (run (\<lambda>t. [t])
          [Submit ''A. B.'' [''es'', ''fr''], Dispatch 1,
           Work 2 (\<lambda>s u. Inr (s @ '': '' @ u)) [0], Finalize 1]
          initial_system)"
proof -
  have ev: "map_option (\<lambda>sys. (map t_status (db_texts (store sys)),
                      map tr_text_id (db_translations (store sys)),
                      map tr_status (db_translations (store sys)),
                      workers sys 1, workers sys 2))
     (run (\<lambda>t. [t])
        [Submit ''A. B.'' [''es'', ''fr''], Dispatch 1,
         Work 2 (\<lambda>s u. Inr (s @ '': '' @ u)) [0],
         Work 1 (\<lambda>s u. Inr (s @ '': '' @ u)) [0], Finalize 1]
        initial_system)
   = Some ([''completed''], [1, 1], [''complete'', ''complete''], Some Succeeded, Some Succeeded)"
    by code_simp
  have no: "Option.is_none
       (run (\<lambda>t. [t])
          [Submit ''A. B.'' [''es'', ''fr''], Dispatch 1,
           Work 2 (\<lambda>s u. Inr (s @ '': '' @ u)) [0], Finalize 1]
          initial_system)"
    by code_simp
  from ev obtain sys where r: "run (\<lambda>t. [t])
        [Submit ''A. B.'' [''es'', ''fr''], Dispatch 1,
         Work 2 (\<lambda>s u. Inr (s @ '': '' @ u)) [0],
         Work 1 (\<lambda>s u. Inr (s @ '': '' @ u)) [0], Finalize 1]
        initial_system = Some sys"
    by auto
  from fan_in_completeness [OF r] ev no show ?thesis by simp
qed

text \<open>
  C5 as the claim states it fails. In this run of the job of the text \<^verbatim>\<open>A. B.\<close>
  for the languages \<^verbatim>\<open>es\<close> and \<^verbatim>\<open>fr\<close>, the translation service fails for the
  first Sub-job and answers for the second. Both workers have finished, the first with
  \<open>APIError\<close>; the second Sub-job is complete; the finalization cannot be taken, and
  the job is pending, also after the wait has ended with the exception. With the
  workers of tasks_async.py it is the same, and there the second worker fails too, at
  its \<^verbatim>\<open>await\<close>.
\<close>

theorem failed_worker_counterexample:
  "map_option (\<lambda>sys. (map t_status (db_texts (store sys)),
                      map tr_status (db_translations (store sys)),
                      workers sys 1, workers sys 2, orchestrations sys 1))
     (run (\<lambda>t. [t])
        [Submit ''A. B.'' [''es'', ''fr''], Dispatch 1,
         Work 1 (\<lambda>s u. Inl APIError) [0],
         Work 2 (\<lambda>s u. Inr (s @ '': '' @ u)) [0]]
        initial_system)
   = Some ([''pending''], [''pending'', ''complete''],
           Some (Failed APIError), Some Succeeded, Some (Waiting [1, 2]))
   \<and> Option.is_none
       (run (\<lambda>t. [t])
          [Submit ''A. B.'' [''es'', ''fr''], Dispatch 1,
           Work 1 (\<lambda>s u. Inl APIError) [0],
           Work 2 (\<lambda>s u. Inr (s @ '': '' @ u)) [0], Finalize 1]
          initial_system)
   \<and> map_option (\<lambda>sys. (map t_status (db_texts (store sys)), orchestrations sys 1))
       (run (\<lambda>t. [t])
          [Submit ''A. B.'' [''es'', ''fr''], Dispatch 1,
           Work 1 (\<lambda>s u. Inl APIError) [0],
           Work 2 (\<lambda>s u. Inr (s @ '': '' @ u)) [0], Abort 1]
          initial_system)
     = Some ([''pending''], Some Aborted)
   \<and> Option.is_none
       (run (\<lambda>t. [t])
          [Submit ''A. B.'' [''es'', ''fr''], Dispatch 1,
           Work 1 (\<lambda>s u. Inl APIError) [0],
           Work 2 (\<lambda>s u. Inr (s @ '': '' @ u)) [0], Abort 1, Finalize 1]
          initial_system)
   \<and> map_option (\<lambda>sys. (map t_status (db_texts (store sys)),
                        map tr_status (db_translations (store sys)),
                        workers sys 1, workers sys 2, orchestrations sys 1))
       (run (\<lambda>t. [t])
          [Submit ''A. B.'' [''es'', ''fr''], Dispatch 1,
           WorkAsync 1 (\<lambda>s u. Inl APIError) [0],
           WorkAsync 2 (\<lambda>s u. Inr (s @ '': '' @ u)) [0]]
          initial_system)
     = Some ([''pending''], [''pending'', ''pending''],
             Some (Failed APIError), Some (Failed TypeError), Some (Waiting [1, 2]))
   \<and> Option.is_none
       (run (\<lambda>t. [t])
          [Submit ''A. B.'' [''es'', ''fr''], Dispatch 1,
           WorkAsync 1 (\<lambda>s u. Inl APIError) [0],
           WorkAsync 2 (\<lambda>s u. Inr (s @ '': '' @ u)) [0], Finalize 1]
          initial_system)"
  by code_simp

text \<open>
  C5, amended (finalization). In a state that a run reaches from the initial state:
  when a worker of a Sub-job has failed, the job of that Sub-job is pending, and it is
  pending in every state that any further actions reach; when the orchestration of a
  job waits for its workers and all of them have succeeded, the finalization can be
  taken and writes the status \<^verbatim>\<open>completed\<close> to the job; when one of them has
  failed, the finalization cannot be taken.
\<close>

theorem completed_only_after_success:
  "run nlp actions initial_system = Some sys \<Longrightarrow>
   (\<forall>t\<in>set (db_translations (store sys)). is_failed (workers sys (tr_id t)) \<longrightarrow>
      (\<forall>actions' sys'. run nlp actions' sys = Some sys' \<longrightarrow>
         (\<forall>job\<in>set (db_texts (store sys')). t_id job = tr_text_id t \<longrightarrow> t_status job = ''pending'')))
   \<and> (\<forall>text_id tasks job.
         orchestrations sys text_id = Some (Waiting tasks)
         \<and> list_all (\<lambda>i. workers sys i = Some Succeeded) tasks
         \<and> get_text (store sys) text_id = Some job
         \<longrightarrow> (\<exists>sys'. step nlp (Finalize text_id) sys = Some sys'
                \<and> get_text (store sys') text_id = Some (job\<lparr>t_status := ''completed''\<rparr>)))
   \<and> (\<forall>text_id tasks.
         orchestrations sys text_id = Some (Waiting tasks)
         \<and> list_ex (\<lambda>i. is_failed (workers sys i)) tasks
         \<longrightarrow> step nlp (Finalize text_id) sys = None)"
proof (intro conjI ballI allI impI)
  assume r: "run nlp actions initial_system = Some sys"
  with invariant_initial have inv: "orchestration_invariant sys" by (rule run_invariant)
  fix t actions' sys' job
  assume t: "t \<in> set (db_translations (store sys))" and f: "is_failed (workers sys (tr_id t))"
    and r': "run nlp actions' sys = Some sys'"
    and job: "job \<in> set (db_texts (store sys'))" "t_id job = tr_text_id t"
  from failed_stable_run [OF inv t f r'] obtain u where
    u: "u \<in> set (db_translations (store sys'))" "tr_id u = tr_id t" "tr_text_id u = tr_text_id t"
    and f': "is_failed (workers sys' (tr_id t))"
    by blast
  from run_invariant [OF inv r'] have "orchestration_invariant sys'" .
  from failed_pending [OF this u(1) _ job(1)] f' u job(2) show "t_status job = ''pending''" by simp
next
  fix text_id tasks job
  assume "orchestrations sys text_id = Some (Waiting tasks)
         \<and> list_all (\<lambda>i. workers sys i = Some Succeeded) tasks
         \<and> get_text (store sys) text_id = Some job"
  then show "\<exists>sys'. step nlp (Finalize text_id) sys = Some sys'
                \<and> get_text (store sys') text_id = Some (job\<lparr>t_status := ''completed''\<rparr>)"
    using finalize_writes [of sys text_id tasks job nlp] by blast
next
  fix text_id tasks
  assume "orchestrations sys text_id = Some (Waiting tasks)
         \<and> list_ex (\<lambda>i. is_failed (workers sys i)) tasks"
  then show "step nlp (Finalize text_id) sys = None"
    using finalize_refused [of sys text_id tasks nlp] by blast
qed

text \<open>
  The theorem at the state in which the first worker has failed and the second has
  succeeded: the finalization cannot be taken, and after the end of the wait the job is
  pending. And at the state in which both workers have succeeded: the finalization
  writes \<^verbatim>\<open>completed\<close>.
\<close>

theorem completed_only_after_success_witness:
  "map_option (\<lambda>sys. (map tr_id (db_translations (store sys)), is_failed (workers sys 1)))
     (run (\<lambda>t. [t])
        [Submit ''A. B.'' [''es'', ''fr''], Dispatch 1,
         Work 1 (\<lambda>s u. Inl APIError) [0],
         Work 2 (\<lambda>s u. Inr (s @ '': '' @ u)) [0]]
        initial_system)
   = Some ([1, 2], True)
   \<and> map_option (\<lambda>sys. map (\<lambda>job. (t_id job, t_status job)) (db_texts (store sys)))
       (run (\<lambda>t. [t])
          [Submit ''A. B.'' [''es'', ''fr''], Dispatch 1,
           Work 1 (\<lambda>s u. Inl APIError) [0],
           Work 2 (\<lambda>s u. Inr (s @ '': '' @ u)) [0], Abort 1]
          initial_system)
     = Some [(1, ''pending'')]
   \<and> map_option (\<lambda>sys. (orchestrations sys 1, workers sys 1, workers sys 2,
                        map_option t_status (get_text (store sys) 1)))
       (run (\<lambda>t. [t])
          [Submit ''A. B.'' [''es'', ''fr''], Dispatch 1,
           Work 1 (\<lambda>s u. Inr (s @ '': '' @ u)) [0],
           Work 2 (\<lambda>s u. Inr (s @ '': '' @ u)) [0]]
          initial_system)
     = Some (Some (Waiting [1, 2]), Some Succeeded, Some Succeeded, Some ''pending'')
   \<and> map_option (\<lambda>sys. map_option t_status (get_text (store sys) 1))
       (run (\<lambda>t. [t])
          [Submit ''A. B.'' [''es'', ''fr''], Dispatch 1,
           Work 1 (\<lambda>s u. Inr (s @ '': '' @ u)) [0],
           Work 2 (\<lambda>s u. Inr (s @ '': '' @ u)) [0], Finalize 1]
          initial_system)
     = Some (Some ''completed'')
   \<and> Option.is_none
       (run (\<lambda>t. [t])
          [Submit ''A. B.'' [''es'', ''fr''], Dispatch 1,
           Work 1 (\<lambda>s u. Inl APIError) [0],
           Work 2 (\<lambda>s u. Inr (s @ '': '' @ u)) [0], Finalize 1]
          initial_system)"
proof -
  have a: "map_option (\<lambda>sys. (map tr_id (db_translations (store sys)), is_failed (workers sys 1)))
     (run (\<lambda>t. [t])
        [Submit ''A. B.'' [''es'', ''fr''], Dispatch 1,
         Work 1 (\<lambda>s u. Inl APIError) [0],
         Work 2 (\<lambda>s u. Inr (s @ '': '' @ u)) [0]]
        initial_system)
   = Some ([1, 2], True)"
    by code_simp
  have b: "map_option (\<lambda>sys. map (\<lambda>job. (t_id job, t_status job)) (db_texts (store sys)))
       (run (\<lambda>t. [t])
          [Submit ''A. B.'' [''es'', ''fr''], Dispatch 1,
           Work 1 (\<lambda>s u. Inl APIError) [0],
           Work 2 (\<lambda>s u. Inr (s @ '': '' @ u)) [0], Abort 1]
          initial_system)
     = Some [(1, ''pending'')]"
    by code_simp
  have c: "map_option (\<lambda>sys. (orchestrations sys 1, workers sys 1, workers sys 2,
                        map_option t_status (get_text (store sys) 1)))
       (run (\<lambda>t. [t])
          [Submit ''A. B.'' [''es'', ''fr''], Dispatch 1,
           Work 1 (\<lambda>s u. Inr (s @ '': '' @ u)) [0],
           Work 2 (\<lambda>s u. Inr (s @ '': '' @ u)) [0]]
          initial_system)
     = Some (Some (Waiting [1, 2]), Some Succeeded, Some Succeeded, Some ''pending'')"
    by code_simp
  have d: "map_option (\<lambda>sys. map_option t_status (get_text (store sys) 1))
       (run (\<lambda>t. [t])
          [Submit ''A. B.'' [''es'', ''fr''], Dispatch 1,
           Work 1 (\<lambda>s u. Inr (s @ '': '' @ u)) [0],
           Work 2 (\<lambda>s u. Inr (s @ '': '' @ u)) [0], Finalize 1]
          initial_system)
     = Some (Some ''completed'')"
    by code_simp
  have e: "Option.is_none
       (run (\<lambda>t. [t])
          [Submit ''A. B.'' [''es'', ''fr''], Dispatch 1,
           Work 1 (\<lambda>s u. Inl APIError) [0],
           Work 2 (\<lambda>s u. Inr (s @ '': '' @ u)) [0], Finalize 1]
          initial_system)"
    by code_simp
  from a obtain sys where r: "run (\<lambda>t. [t])
        [Submit ''A. B.'' [''es'', ''fr''], Dispatch 1,
         Work 1 (\<lambda>s u. Inl APIError) [0],
         Work 2 (\<lambda>s u. Inr (s @ '': '' @ u)) [0]]
        initial_system = Some sys"
    by auto
  from completed_only_after_success [OF r] a b c d e show ?thesis by simp
qed

end
